theory Spec2Isabelle
  imports Main "HOL-Library.Char_ord" "HOL-Library.List_Lexorder"
begin

section \<open>Python values used by pdf\_ocr\_cli.py\<close>

text \<open>
  A Python \<open>str\<close> is a sequence of Unicode code points and \<open>len\<close> counts code points,
  so a page text is a list of code points. File names, languages and messages only
  ever get concatenated and compared, and stay HOL strings.
\<close>

type_synonym pystr = "nat list"

definition py_str :: "string \<Rightarrow> pystr" where
  "py_str s = map of_char s"

text \<open>
  The characters \<open>str.strip()\<close> removes when called without argument: those for which
  \<open>str.isspace\<close> holds (CPython's \<open>_PyUnicode_IsWhitespace\<close>).
\<close>

definition is_space :: "nat \<Rightarrow> bool" where
  "is_space c \<longleftrightarrow>
     (9 \<le> c \<and> c \<le> 13) \<or> (28 \<le> c \<and> c \<le> 32) \<or> c = 133 \<or> c = 160 \<or> c = 5760 \<or>
     (8192 \<le> c \<and> c \<le> 8202) \<or> c = 8232 \<or> c = 8233 \<or> c = 8239 \<or> c = 8287 \<or> c = 12288"

definition strip :: "pystr \<Rightarrow> pystr" where
  "strip s = rev (dropWhile is_space (rev (dropWhile is_space s)))"

text \<open>\<open>sep.join(xs)\<close>.\<close>

fun py_join :: "pystr \<Rightarrow> pystr list \<Rightarrow> pystr" where
  "py_join sep [] = []"
| "py_join sep [x] = x"
| "py_join sep (x # y # ys) = x @ sep @ py_join sep (y # ys)"

text \<open>
  Exceptions. Only \<open>RuntimeError\<close> and \<open>FileNotFoundError\<close> are raised by the program
  itself; everything a library raises is \<open>LibraryError\<close>. All three are subclasses of
  \<open>Exception\<close>. The argument is \<open>str(e)\<close>.
\<close>

datatype exn = RuntimeError string | FileNotFoundError string | LibraryError string

fun str_of_exn :: "exn \<Rightarrow> string" where
  "str_of_exn (RuntimeError m) = m"
| "str_of_exn (FileNotFoundError m) = m"
| "str_of_exn (LibraryError m) = m"

text \<open>
  A \<open>pathlib.Path\<close>, as far as the program looks into it: the directory it lies in
  and its final component. \<open>str(p)\<close> shows the directory without trailing separators,
  nothing for the current directory \<open>.\<close>, and the root as a single separator;
  what else \<open>pathlib\<close> normalises inside a directory name is left as it is.
\<close>

record path =
  parent :: string
  name :: string

definition str_of_path :: "path \<Rightarrow> string" where
  "str_of_path p =
     (let d = rev (dropWhile (\<lambda>c. c = CHR ''/'') (rev (parent p))) in
      if d = [] \<and> parent p \<noteq> [] then ''/'' @ name p
      else if d = [] \<or> d = ''.'' then name p
      else d @ ''/'' @ name p)"

text \<open>\<open>name.rfind('.')\<close> as the number of characters before the last dot.\<close>

definition rfind_dot :: "string \<Rightarrow> nat option" where
  "rfind_dot s =
     (if CHR ''.'' \<in> set s then Some (length s - 1 - length (takeWhile (\<lambda>c. c \<noteq> CHR ''.'') (rev s)))
      else None)"

text \<open>\<open>Path.suffix\<close> and \<open>Path.stem\<close>: a leading or a trailing dot starts no suffix.\<close>

definition suffix :: "path \<Rightarrow> string" where
  "suffix p =
     (case rfind_dot (name p) of
        None \<Rightarrow> ''''
      | Some i \<Rightarrow> if 0 < i \<and> i < length (name p) - 1 then drop i (name p) else '''')"

definition stem :: "path \<Rightarrow> string" where
  "stem p =
     (case rfind_dot (name p) of
        None \<Rightarrow> name p
      | Some i \<Rightarrow> if 0 < i \<and> i < length (name p) - 1 then take i (name p) else name p)"

definition lower_char :: "char \<Rightarrow> char" where
  "lower_char c =
     (if CHR ''A'' \<le> c \<and> c \<le> CHR ''Z'' then char_of (of_char c + (32::nat)) else c)"

definition lower :: "string \<Rightarrow> string" where
  "lower s = map lower_char s"

section \<open>The collaborators\<close>

text \<open>
  Tesseract, Poppler, PyPDF2, pdfplumber, Pillow and the file system are outside the
  program. Their answers are the fields of an environment; a call that raises
  answers \<open>Inl\<close>. The environment is fixed during a run: the same call gives the
  same answer.

  \<^item> \<open>pypdf_open p\<close> is \<open>PdfReader(str(p))\<close> with its pages; the entry for a page is
    what \<open>writer.add_page(reader.pages[i])\<close> does with it, the page that gets
    appended or the exception raised on the way. \<open>pypdf_read_bytes\<close> is the same for
    \<open>PdfReader(io.BytesIO(b))\<close>.
  \<^item> \<open>plumber_open p\<close> is \<open>pdfplumber.open(str(p))\<close> with \<open>doc.pages\<close>; the entry for
    a page is what \<open>extract_text()\<close> does there: raise, return \<open>None\<close>, or return a
    text.
\<close>

record ('img, 'pg, 'bytes) env =
  tesseract_version :: "string option \<Rightarrow> exn + unit"
  is_file :: "path \<Rightarrow> bool"
  is_dir :: "path \<Rightarrow> bool"
  iterdir :: "path \<Rightarrow> exn + path list"
  mkdir :: "string \<Rightarrow> exn + unit"
  pypdf_open :: "path \<Rightarrow> exn + (exn + 'pg) list"
  pypdf_read_bytes :: "'bytes \<Rightarrow> exn + (exn + 'pg) list"
  plumber_open :: "path \<Rightarrow> exn + (exn + pystr option) list"
  convert_from_path :: "path \<Rightarrow> int \<Rightarrow> string option \<Rightarrow> exn + 'img list"
  image_mode :: "'img \<Rightarrow> string"
  flatten_alpha :: "'img \<Rightarrow> exn + 'img"
  convert_rgb :: "'img \<Rightarrow> exn + 'img"
  image_to_pdf :: "'img \<Rightarrow> string \<Rightarrow> string \<Rightarrow> exn + 'bytes"
  image_to_string :: "'img \<Rightarrow> string \<Rightarrow> string \<Rightarrow> exn + pystr"
  write_pdf_file :: "path \<Rightarrow> exn + unit"
  write_txt_file :: "path \<Rightarrow> exn + unit"

section \<open>The page classifier\<close>

text \<open>The body of the \<open>try\<close> of \<open>pdf_page_has_text\<close>, with the final \<open>return False\<close>.\<close>

definition pdf_page_has_text_try ::
  "('img, 'pg, 'bytes) env \<Rightarrow> path \<Rightarrow> int \<Rightarrow> exn + bool" where
  "pdf_page_has_text_try env pdf_path page_number =
     (case plumber_open env pdf_path of
        Inl e \<Rightarrow> Inl e
      | Inr pages \<Rightarrow>
          if page_number < 0 \<or> page_number \<ge> int (length pages) then Inr False
          else (case pages ! nat page_number of
                  Inl e \<Rightarrow> Inl e
                | Inr None \<Rightarrow> Inr False
                | Inr (Some text) \<Rightarrow>
                    if text \<noteq> [] \<and> length (strip text) > 20 then Inr True else Inr False))"

text \<open>\<open>except Exception: return False\<close>. The result says whether the call raises.\<close>

definition pdf_page_has_text ::
  "('img, 'pg, 'bytes) env \<Rightarrow> path \<Rightarrow> int \<Rightarrow> exn + bool" where
  "pdf_page_has_text env pdf_path page_number =
     (case pdf_page_has_text_try env pdf_path page_number of
        Inl e \<Rightarrow> Inr False
      | Inr b \<Rightarrow> Inr b)"

section \<open>Effects\<close>

text \<open>
  What a run does to the outside is a trace of events, in the order they happen: the
  log records (by level, the message as its parts rather than as formatted text), the
  calls of \<open>ocr_image_to_pdf_bytes\<close> and \<open>ocr_image_to_text\<close> with the index of the page
  whose image they are given (the event is the call: it stands before the image is
  converted and handed to Tesseract), the files written, the summary printed, and the calls \<open>main\<close> makes to \<open>list_input_files\<close>
  and \<open>process_single_pdf\<close>.
\<close>

datatype 'pg wpage = Page 'pg | BlankPage nat nat

datatype run_result =
    Summary (r_input: string) (r_output_pdf: "string option") (r_output_txt: "string option")
      (r_pages: nat)
  | Failure (r_input: string) (r_error: string)

datatype level = INFO | WARNING | ERROR

datatype msg =
    MsgProcessing path int string
  | MsgImageCount nat nat
  | MsgSkipPage nat
  | MsgCopyFailed nat exn
  | MsgPageError nat exn
  | MsgWrotePdf path
  | MsgWritePdfFailed path exn
  | MsgWroteTxt path
  | MsgWriteTxtFailed path exn
  | MsgDependency exn
  | MsgInputError exn
  | MsgBatchNeedsDir
  | MsgFailedProcessing path exn

datatype 'pg event =
    Log level msg
  | OcrPdf nat
  | OcrText nat
  | WrotePdf path "'pg wpage list"
  | WroteTxt path pystr
  | Printed "run_result list"
  | Called_list_input_files path
  | Called_process_single_pdf path

section \<open>OCR adapter and merging\<close>

text \<open>\<open>x or ""\<close> for an optional string.\<close>

definition or_empty :: "string option \<Rightarrow> string" where
  "or_empty x = (case x of None \<Rightarrow> [] | Some c \<Rightarrow> c)"

text \<open>An optional string that is used only \<open>if x:\<close>, so that \<open>""\<close> counts as absent.\<close>

definition if_truthy :: "string option \<Rightarrow> string option" where
  "if_truthy x = (case x of None \<Rightarrow> None | Some c \<Rightarrow> if c = [] then None else Some c)"

definition ocr_image_to_pdf_bytes ::
  "('img, 'pg, 'bytes) env \<Rightarrow> 'img \<Rightarrow> string \<Rightarrow> string option \<Rightarrow> exn + 'bytes" where
  "ocr_image_to_pdf_bytes env img lang config =
     (case (if image_mode env img = ''RGBA'' \<or> image_mode env img = ''LA''
            then flatten_alpha env img else convert_rgb env img) of
        Inl e \<Rightarrow> Inl e
      | Inr image_for_ocr \<Rightarrow> image_to_pdf env image_for_ocr lang (or_empty config))"

definition ocr_image_to_text ::
  "('img, 'pg, 'bytes) env \<Rightarrow> 'img \<Rightarrow> string \<Rightarrow> string option \<Rightarrow> exn + pystr" where
  "ocr_image_to_text env img lang config = image_to_string env img lang (or_empty config)"

text \<open>
  \<open>for p in reader.pages: writer.add_page(p)\<close>: the pages added before one raises stay
  in the writer.
\<close>

fun add_pages :: "'pg wpage list \<Rightarrow> (exn + 'pg) list \<Rightarrow> 'pg wpage list \<times> exn option" where
  "add_pages writer [] = (writer, None)"
| "add_pages writer (Inl e # ps) = (writer, Some e)"
| "add_pages writer (Inr p # ps) = add_pages (writer @ [Page p]) ps"

definition merge_pdf_bytes_into_writer ::
  "('img, 'pg, 'bytes) env \<Rightarrow> 'pg wpage list \<Rightarrow> 'bytes \<Rightarrow> 'pg wpage list \<times> exn option" where
  "merge_pdf_bytes_into_writer env writer pdf_bytes =
     (case pypdf_read_bytes env pdf_bytes of
        Inl e \<Rightarrow> (writer, Some e)
      | Inr pages \<Rightarrow> add_pages writer pages)"

text \<open>\<open>pdf_to_images\<close>: a \<open>poppler_path\<close> is passed on only when it is not empty.\<close>

definition pdf_to_images ::
  "('img, 'pg, 'bytes) env \<Rightarrow> path \<Rightarrow> int \<Rightarrow> string option \<Rightarrow> exn + 'img list" where
  "pdf_to_images env pdf_path dpi poppler_path =
     (case convert_from_path env pdf_path dpi (if_truthy poppler_path) of
        Inl e \<Rightarrow> Inl (RuntimeError (''Failed to convert PDF to images: '' @ str_of_exn e))
      | Inr images \<Rightarrow> Inr images)"

section \<open>The page assembler\<close>

record opts =
  output_pdf :: bool
  output_txt :: bool
  dpi :: int
  lang :: string
  skip_if_text :: bool
  poppler_path :: "string option"
  tesseract_config :: "string option"
  out_dir :: "string option"

text \<open>The writer being filled, the texts collected, and the trace so far.\<close>

record 'pg pstate =
  writer :: "'pg wpage list"
  all_text :: "pystr list"
  trace :: "'pg event list"

definition emit :: "'pg event \<Rightarrow> 'pg pstate \<Rightarrow> 'pg pstate" where
  "emit ev s = s\<lparr>trace := trace s @ [ev]\<rparr>"

text \<open>
  \<open>writer.add_page(reader_orig.pages[page_idx])\<close>: an index past the end raises
  \<open>IndexError\<close>, with PyPDF2's message (the loop counts from 0, so no index is
  negative).
\<close>

definition add_original ::
  "(exn + 'pg) list \<Rightarrow> nat \<Rightarrow> 'pg wpage list \<Rightarrow> 'pg wpage list \<times> exn option" where
  "add_original reader_orig page_idx w =
     (if page_idx < length reader_orig then
        (case reader_orig ! page_idx of
           Inl e \<Rightarrow> (w, Some e)
         | Inr pg \<Rightarrow> (w @ [Page pg], None))
      else (w, Some (LibraryError ''sequence index out of range'')))"

text \<open>
  The three OCR statements, which the source has twice (as the fallback of the copy and
  as the \<open>else\<close> branch). The result is the exception that leaves them, if any, and
  the state at that point.
\<close>

definition ocr_page ::
  "('img, 'pg, 'bytes) env \<Rightarrow> opts \<Rightarrow> nat \<Rightarrow> 'img \<Rightarrow> 'pg pstate \<Rightarrow> exn option \<times> 'pg pstate" where
  "ocr_page env opt page_idx img s =
     (let s1 = emit (OcrPdf page_idx) s in
      case ocr_image_to_pdf_bytes env img (lang opt) (tesseract_config opt) of
        Inl e \<Rightarrow> (Some e, s1)
      | Inr pdf_bytes \<Rightarrow>
          (case merge_pdf_bytes_into_writer env (writer s1) pdf_bytes of
             (w, Some e) \<Rightarrow> (Some e, s1\<lparr>writer := w\<rparr>)
           | (w, None) \<Rightarrow>
               (let s2 = s1\<lparr>writer := w\<rparr> in
                if output_txt opt then
                  (let s3 = emit (OcrText page_idx) s2 in
                   case ocr_image_to_text env img (lang opt) (tesseract_config opt) of
                     Inl e \<Rightarrow> (Some e, s3)
                   | Inr text \<Rightarrow> (None, s3\<lparr>all_text := all_text s3 @ [text]\<rparr>))
                else (None, s2))))"

text \<open>The inner \<open>try\<close>: copy the original page, and collect its text if asked.\<close>

definition copy_page ::
  "('img, 'pg, 'bytes) env \<Rightarrow> path \<Rightarrow> (exn + 'pg) list \<Rightarrow> opts \<Rightarrow> nat \<Rightarrow> 'pg pstate
     \<Rightarrow> exn option \<times> 'pg pstate" where
  "copy_page env pdf_path reader_orig opt page_idx s =
     (case add_original reader_orig page_idx (writer s) of
        (w, Some e) \<Rightarrow> (Some e, s\<lparr>writer := w\<rparr>)
      | (w, None) \<Rightarrow>
          (let s1 = s\<lparr>writer := w\<rparr> in
           if output_txt opt then
             (case plumber_open env pdf_path of
                Inl e \<Rightarrow> (Some e, s1)
              | Inr pages \<Rightarrow>
                  if page_idx < length pages then
                    (case pages ! page_idx of
                       Inl e \<Rightarrow> (Some e, s1)
                     | Inr None \<Rightarrow> (None, s1\<lparr>all_text := all_text s1 @ [[]]\<rparr>)
                     | Inr (Some text) \<Rightarrow> (None, s1\<lparr>all_text := all_text s1 @ [text]\<rparr>))
                  else (Some (LibraryError ''list index out of range''), s1))
           else (None, s1)))"

text \<open>The outer \<open>try\<close> of one iteration.\<close>

definition page_try ::
  "('img, 'pg, 'bytes) env \<Rightarrow> path \<Rightarrow> (exn + 'pg) list \<Rightarrow> opts \<Rightarrow> nat \<Rightarrow> 'img \<Rightarrow> 'pg pstate
     \<Rightarrow> exn option \<times> 'pg pstate" where
  "page_try env pdf_path reader_orig opt page_idx img s =
     (case (if skip_if_text opt then pdf_page_has_text env pdf_path (int page_idx) else Inr False) of
        Inl e \<Rightarrow> (Some e, s)
      | Inr True \<Rightarrow>
          (case copy_page env pdf_path reader_orig opt page_idx
                  (emit (Log INFO (MsgSkipPage (page_idx + 1))) s) of
             (None, s1) \<Rightarrow> (None, s1)
           | (Some e, s1) \<Rightarrow>
               ocr_page env opt page_idx img
                 (emit (Log WARNING (MsgCopyFailed (page_idx + 1) e)) s1))
      | Inr False \<Rightarrow> ocr_page env opt page_idx img s)"

text \<open>One iteration, with the outer \<open>except\<close>: the original page, or else a blank one.\<close>

definition process_page ::
  "('img, 'pg, 'bytes) env \<Rightarrow> path \<Rightarrow> (exn + 'pg) list \<Rightarrow> opts \<Rightarrow> nat \<Rightarrow> 'img \<Rightarrow> 'pg pstate
     \<Rightarrow> 'pg pstate" where
  "process_page env pdf_path reader_orig opt page_idx img s =
     (case page_try env pdf_path reader_orig opt page_idx img s of
        (None, s1) \<Rightarrow> s1
      | (Some e, s1) \<Rightarrow>
          (let s2 = emit (Log ERROR (MsgPageError (page_idx + 1) e)) s1 in
           case add_original reader_orig page_idx (writer s2) of
             (w, None) \<Rightarrow> s2\<lparr>writer := w\<rparr>
           | (w, Some e') \<Rightarrow> s2\<lparr>writer := writer s2 @ [BlankPage 595 842]\<rparr>))"

text \<open>\<open>for page_idx, img in enumerate(images)\<close>.\<close>

definition enumerate_from0 :: "'a list \<Rightarrow> (nat \<times> 'a) list" where
  "enumerate_from0 xs = zip [0..<length xs] xs"

fun process_pages ::
  "('img, 'pg, 'bytes) env \<Rightarrow> path \<Rightarrow> (exn + 'pg) list \<Rightarrow> opts \<Rightarrow> (nat \<times> 'img) list
     \<Rightarrow> 'pg pstate \<Rightarrow> 'pg pstate" where
  "process_pages env pdf_path reader_orig opt [] s = s"
| "process_pages env pdf_path reader_orig opt ((page_idx, img) # rest) s =
     process_pages env pdf_path reader_orig opt rest
       (process_page env pdf_path reader_orig opt page_idx img s)"

section \<open>Writing the outputs\<close>

definition page_break :: pystr where
  "page_break = [10, 10] @ py_str ''=== PAGE BREAK ==='' @ [10, 10]"

text \<open>\<open>"\n\n=== PAGE BREAK ===\n\n".join([t.strip() for t in all_text if t])\<close>.\<close>

definition combined_text :: "pystr list \<Rightarrow> pystr" where
  "combined_text texts = py_join page_break (map strip (filter (\<lambda>t. t \<noteq> []) texts))"

text \<open>
  The two writing steps at the end of \<open>process_single_pdf\<close>: the trace after the
  step, and the exception it re-raises, if any. A \<open>Path\<close> is never falsy, so
  \<open>output_pdf and output_pdf_path\<close> asks whether there is a path.
\<close>

definition write_pdf_step ::
  "('img, 'pg, 'bytes) env \<Rightarrow> path option \<Rightarrow> 'pg pstate \<Rightarrow> 'pg event list \<times> exn option" where
  "write_pdf_step env output_pdf_path s =
     (case output_pdf_path of
        None \<Rightarrow> (trace s, None)
      | Some p \<Rightarrow>
          (case write_pdf_file env p of
             Inl e \<Rightarrow> (trace s @ [Log ERROR (MsgWritePdfFailed p e)], Some e)
           | Inr _ \<Rightarrow> (trace s @ [WrotePdf p (writer s), Log INFO (MsgWrotePdf p)], None)))"

definition write_txt_step ::
  "('img, 'pg, 'bytes) env \<Rightarrow> path option \<Rightarrow> 'pg pstate \<Rightarrow> 'pg event list
     \<Rightarrow> 'pg event list \<times> exn option" where
  "write_txt_step env output_txt_path s t =
     (case output_txt_path of
        None \<Rightarrow> (t, None)
      | Some p \<Rightarrow>
          (case write_txt_file env p of
             Inl e \<Rightarrow> (t @ [Log ERROR (MsgWriteTxtFailed p e)], Some e)
           | Inr _ \<Rightarrow>
               (t @ [WroteTxt p (combined_text (all_text s)), Log INFO (MsgWroteTxt p)], None)))"

text \<open>
  \<open>process_single_pdf\<close>. An exception that leaves it is the \<open>Inl\<close> of the second
  component; the trace up to that point is kept.
\<close>

definition process_single_pdf ::
  "('img, 'pg, 'bytes) env \<Rightarrow> path \<Rightarrow> opts \<Rightarrow> 'pg event list \<times> (exn + run_result)" where
  "process_single_pdf env pdf_path opt =
     (let out_dir' = (case out_dir opt of None \<Rightarrow> parent pdf_path | Some d \<Rightarrow> d) in
      case mkdir env out_dir' of
        Inl e \<Rightarrow> ([], Inl e)
      | Inr _ \<Rightarrow>
     (let base_name = stem pdf_path;
          output_pdf_path =
            (if output_pdf opt
             then Some \<lparr>parent = out_dir', name = base_name @ ''_searchable.pdf''\<rparr> else None);
          output_txt_path =
            (if output_txt opt
             then Some \<lparr>parent = out_dir', name = base_name @ ''.txt''\<rparr> else None);
          t0 = [Log INFO (MsgProcessing pdf_path (dpi opt) (lang opt))] in
      case pypdf_open env pdf_path of
        Inl e \<Rightarrow>
          (t0, Inl (RuntimeError (''Failed to read PDF file with PyPDF2: '' @ str_of_exn e)))
      | Inr reader_orig \<Rightarrow>
     (let num_pages = length reader_orig in
      case pdf_to_images env pdf_path (dpi opt) (poppler_path opt) of
        Inl e \<Rightarrow> (t0, Inl e)
      | Inr images \<Rightarrow>
     (let t1 = (if length images \<noteq> num_pages
                then t0 @ [Log WARNING (MsgImageCount (length images) num_pages)] else t0);
          s = process_pages env pdf_path reader_orig opt (enumerate_from0 images)
                \<lparr>writer = [], all_text = [], trace = t1\<rparr> in
      case write_pdf_step env output_pdf_path s of
        (t2, Some e) \<Rightarrow> (t2, Inl e)
      | (t2, None) \<Rightarrow>
     (case write_txt_step env output_txt_path s t2 of
        (t3, Some e) \<Rightarrow> (t3, Inl e)
      | (t3, None) \<Rightarrow>
          (t3, Inr (Summary (str_of_path pdf_path) (map_option str_of_path output_pdf_path)
                      (map_option str_of_path output_txt_path) num_pages)))))))"

section \<open>The command line driver\<close>

definition check_dependencies ::
  "('img, 'pg, 'bytes) env \<Rightarrow> string option \<Rightarrow> exn + unit" where
  "check_dependencies env tesseract_cmd =
     (case tesseract_version env (if_truthy tesseract_cmd) of
        Inl e \<Rightarrow>
          Inl (RuntimeError
                 (''Tesseract not found or not working. Please install Tesseract OCR and ensure it's on PATH, '' @
                  ''or provide --tesseract-cmd path. See README for install instructions.''))
      | Inr _ \<Rightarrow> Inr ())"

text \<open>
  The entries of one directory differ in their final component only, which is what
  \<open>sorted\<close> then compares (as on POSIX, by code point).
\<close>

definition list_input_files :: "('img, 'pg, 'bytes) env \<Rightarrow> path \<Rightarrow> exn + path list" where
  "list_input_files env input_path =
     (if is_file env input_path then Inr [input_path]
      else if is_dir env input_path then
        (case iterdir env input_path of
           Inl e \<Rightarrow> Inl e
         | Inr ps \<Rightarrow> Inr (sort_key name (filter (\<lambda>p. lower (suffix p) = ''.pdf'') ps)))
      else Inl (FileNotFoundError
                  (''Input path '' @ str_of_path input_path @ '' does not exist.'')))"

text \<open>The parsed command line. Parsing itself and the logging setup are argparse's and logging's.\<close>

record args =
  arg_input :: path
  arg_out_dir :: "string option"
  arg_dpi :: int
  arg_lang :: string
  arg_txt :: bool
  arg_no_pdf :: bool
  arg_skip_text_pages :: bool
  arg_poppler_path :: "string option"
  arg_tesseract_cmd :: "string option"
  arg_config :: "string option"
  arg_batch :: bool

definition opts_of_args :: "args \<Rightarrow> opts" where
  "opts_of_args a =
     \<lparr>output_pdf = \<not> arg_no_pdf a, output_txt = arg_txt a, dpi = arg_dpi a, lang = arg_lang a,
      skip_if_text = arg_skip_text_pages a, poppler_path = arg_poppler_path a,
      tesseract_config = arg_config a, out_dir = if_truthy (arg_out_dir a)\<rparr>"

text \<open>\<open>for pdf_file in files\<close> of \<open>main\<close>, with \<open>results\<close> and the trace.\<close>

fun process_files ::
  "('img, 'pg, 'bytes) env \<Rightarrow> opts \<Rightarrow> path list \<Rightarrow> run_result list \<Rightarrow> 'pg event list
     \<Rightarrow> 'pg event list \<times> run_result list" where
  "process_files env opt [] results t = (t, results)"
| "process_files env opt (pdf_file # files) results t =
     (case process_single_pdf env pdf_file opt of
        (t1, Inr res) \<Rightarrow>
          process_files env opt files (results @ [res])
            (t @ [Called_process_single_pdf pdf_file] @ t1)
      | (t1, Inl e) \<Rightarrow>
          process_files env opt files
            (results @ [Failure (str_of_path pdf_file) (str_of_exn e)])
            (t @ [Called_process_single_pdf pdf_file] @ t1 @
               [Log ERROR (MsgFailedProcessing pdf_file e)]))"

text \<open>How \<open>main\<close> ends: \<open>sys.exit(n)\<close>, \<open>return n\<close>, or an exception nobody catches.\<close>

datatype exit = SysExit int | Return int | Uncaught exn

definition main :: "('img, 'pg, 'bytes) env \<Rightarrow> args \<Rightarrow> 'pg event list \<times> exit" where
  "main env a =
     (case check_dependencies env (arg_tesseract_cmd a) of
        Inl (RuntimeError m) \<Rightarrow> ([Log ERROR (MsgDependency (RuntimeError m))], SysExit 1)
      | Inl (FileNotFoundError m) \<Rightarrow> ([], Uncaught (FileNotFoundError m))
      | Inl (LibraryError m) \<Rightarrow> ([], Uncaught (LibraryError m))
      | Inr _ \<Rightarrow>
     (let input_path = arg_input a;
          t0 = [Called_list_input_files input_path] in
      case list_input_files env input_path of
        Inl e \<Rightarrow> (t0 @ [Log ERROR (MsgInputError e)], SysExit 1)
      | Inr files \<Rightarrow>
          if arg_batch a \<and> \<not> is_dir env input_path then
            (t0 @ [Log ERROR MsgBatchNeedsDir], SysExit 1)
          else
            (case process_files env (opts_of_args a) files [] t0 of
               (t, results) \<Rightarrow> (t @ [Printed results], Return 0))))"

section \<open>Observations on a run\<close>

text \<open>The events that iteration \<open>i\<close> of the page loop can add to the trace.\<close>

fun touches :: "nat \<Rightarrow> 'pg event \<Rightarrow> bool" where
  "touches i (OcrPdf j) = (j = i)"
| "touches i (OcrText j) = (j = i)"
| "touches i (Log l (MsgSkipPage n)) = (n = i + 1)"
| "touches i (Log l (MsgCopyFailed n e)) = (n = i + 1)"
| "touches i (Log l (MsgPageError n e)) = (n = i + 1)"
| "touches i ev = False"

text \<open>
  What the collaborators' contract promises about the OCR of one image: the document
  recognised from it, when there is one and it can be read back, has a single page.
\<close>

definition ocr_single_page :: "('img, 'pg, 'bytes) env \<Rightarrow> opts \<Rightarrow> 'img \<Rightarrow> bool" where
  "ocr_single_page env opt img =
     (case ocr_image_to_pdf_bytes env img (lang opt) (tesseract_config opt) of
        Inl e \<Rightarrow> True
      | Inr b \<Rightarrow> (case pypdf_read_bytes env b of Inl e \<Rightarrow> True | Inr ps \<Rightarrow> length ps = 1))"

text \<open>Text recognition of the image does not raise, in case it is asked for.\<close>

definition ocr_text_ok :: "('img, 'pg, 'bytes) env \<Rightarrow> opts \<Rightarrow> 'img \<Rightarrow> bool" where
  "ocr_text_ok env opt img =
     (case ocr_image_to_text env img (lang opt) (tesseract_config opt) of
        Inl e \<Rightarrow> \<not> output_txt opt
      | Inr t \<Rightarrow> True)"

text \<open>
  What one iteration adds, seen by running it from the empty state: the pages it
  appends to the writer, the texts it collects and the events it causes.
\<close>

definition page_effect ::
  "('img, 'pg, 'bytes) env \<Rightarrow> path \<Rightarrow> (exn + 'pg) list \<Rightarrow> opts \<Rightarrow> nat \<times> 'img \<Rightarrow> 'pg pstate" where
  "page_effect env pdf_path reader_orig opt x =
     process_page env pdf_path reader_orig opt (fst x) (snd x)
       \<lparr>writer = [], all_text = [], trace = []\<rparr>"

text \<open>The state in which the page loop of \<open>process_single_pdf\<close> ends.\<close>

definition assemble ::
  "('img, 'pg, 'bytes) env \<Rightarrow> path \<Rightarrow> opts \<Rightarrow> (exn + 'pg) list \<Rightarrow> 'img list \<Rightarrow> 'pg pstate" where
  "assemble env pdf_path opt reader_orig images =
     process_pages env pdf_path reader_orig opt (enumerate_from0 images)
       \<lparr>writer = [], all_text = [],
        trace = (if length images \<noteq> length reader_orig
                 then [Log INFO (MsgProcessing pdf_path (dpi opt) (lang opt)),
                       Log WARNING (MsgImageCount (length images) (length reader_orig))]
                 else [Log INFO (MsgProcessing pdf_path (dpi opt) (lang opt))])\<rparr>"

text \<open>The events of the two writing steps, for the pages and the text they write.\<close>

fun write_event :: "'pg wpage list \<Rightarrow> pystr \<Rightarrow> 'pg event \<Rightarrow> bool" where
  "write_event ps tx (WrotePdf q ps') = (ps' = ps)"
| "write_event ps tx (WroteTxt q tx') = (tx' = tx)"
| "write_event ps tx (Log l (MsgWrotePdf q)) = True"
| "write_event ps tx (Log l (MsgWritePdfFailed q e)) = True"
| "write_event ps tx (Log l (MsgWroteTxt q)) = True"
| "write_event ps tx (Log l (MsgWriteTxtFailed q e)) = True"
| "write_event ps tx ev = False"

text \<open>The texts the page loop collects for a document, page after page.\<close>

definition page_texts ::
  "('img, 'pg, 'bytes) env \<Rightarrow> path \<Rightarrow> opts \<Rightarrow> (exn + 'pg) list \<Rightarrow> 'img list \<Rightarrow> pystr list" where
  "page_texts env pdf_path opt reader_orig images =
     concat (map (\<lambda>x. all_text (page_effect env pdf_path reader_orig opt x))
               (enumerate_from0 images))"

text \<open>
  The combined text in the words of the specification: the page texts joined by the
  page break, with separators between non-empty texts only.
\<close>

definition spec_combined_text :: "pystr list \<Rightarrow> pystr" where
  "spec_combined_text segments = py_join page_break (filter (\<lambda>t. t \<noteq> []) segments)"

text \<open>A state after pages, texts and events have been added to it.\<close>

definition grow :: "'pg wpage list \<Rightarrow> pystr list \<Rightarrow> 'pg event list \<Rightarrow> 'pg pstate \<Rightarrow> 'pg pstate" where
  "grow ws ts evs s =
     \<lparr>writer = writer s @ ws, all_text = all_text s @ ts, trace = trace s @ evs\<rparr>"

section \<open>Example documents\<close>

text \<open>
  A small world to run the program in: images, pages and OCR output are numbers, the
  OCR output \<open>b\<close> parses to the one page \<open>b\<close>, every file operation succeeds, and the
  input is a single file. The arguments give the PyPDF2 pages, the pdfplumber pages, the
  rasterized images and what the two OCR calls answer for an image.
\<close>

definition example_env ::
  "(exn + nat) list \<Rightarrow> (exn + pystr option) list \<Rightarrow> nat list \<Rightarrow> (nat \<Rightarrow> exn + nat)
     \<Rightarrow> (nat \<Rightarrow> exn + pystr) \<Rightarrow> (nat, nat, nat) env" where
  "example_env reader plumber images ocr_pdf ocr_txt =
     \<lparr>tesseract_version = (\<lambda>_. Inr ()), is_file = (\<lambda>_. True), is_dir = (\<lambda>_. False),
      iterdir = (\<lambda>_. Inr []), mkdir = (\<lambda>_. Inr ()), pypdf_open = (\<lambda>_. Inr reader),
      pypdf_read_bytes = (\<lambda>b. Inr [Inr b]), plumber_open = (\<lambda>_. Inr plumber),
      convert_from_path = (\<lambda>_ _ _. Inr images), image_mode = (\<lambda>_. ''RGB''),
      flatten_alpha = Inr, convert_rgb = Inr, image_to_pdf = (\<lambda>i _ _. ocr_pdf i),
      image_to_string = (\<lambda>i _ _. ocr_txt i), write_pdf_file = (\<lambda>_. Inr ()),
      write_txt_file = (\<lambda>_. Inr ())\<rparr>"

definition scan :: path where
  "scan = \<lparr>parent = ''in'', name = ''scan.pdf''\<rparr>"

definition example_opts :: "bool \<Rightarrow> bool \<Rightarrow> opts" where
  "example_opts skip txt =
     \<lparr>output_pdf = True, output_txt = txt, dpi = 300, lang = ''eng'', skip_if_text = skip,
      poppler_path = None, tesseract_config = None, out_dir = None\<rparr>"

text \<open>Texts of 21 and of 20 characters between white space.\<close>

definition text21 :: pystr where
  "text21 = [32, 9] @ py_str ''Invoice 2024-17 total'' @ [10, 12]"

definition text20 :: pystr where
  "text20 = [32] @ py_str ''Invoice 2024-17 paid'' @ [10]"

definition threshold_env :: "(nat, nat, nat) env" where
  "threshold_env =
     example_env [Inr 100, Inr 101] [Inr (Some text21), Inr (Some text20)] [7, 8]
       (\<lambda>i. Inr (200 + i)) (\<lambda>i. Inr [])"

text \<open>Two pages, of which the rasterizer delivers one image; and one page with two images.\<close>

definition short_env :: "(nat, nat, nat) env" where
  "short_env =
     example_env [Inr 100, Inr 101] [Inr None, Inr None] [7] (\<lambda>i. Inr (200 + i)) (\<lambda>i. Inr [])"

definition long_env :: "(nat, nat, nat) env" where
  "long_env =
     example_env [Inr 100] [Inr None] [7, 8] (\<lambda>i. Inr (200 + i)) (\<lambda>i. Inr [])"

text \<open>
  Three pages: the first two carry text, but the second cannot be copied; OCR works for
  the first image only.
\<close>

definition degraded_env :: "(nat, nat, nat) env" where
  "degraded_env =
     example_env [Inr 100, Inl (LibraryError ''PdfReadError''), Inr 102]
       [Inr (Some text21), Inr (Some text21), Inr None] [7, 8, 9]
       (\<lambda>i. if i = 7 then Inr 207 else Inl (LibraryError ''TesseractError'')) (\<lambda>i. Inr [])"

text \<open>One page with text that cannot be copied, while OCR works.\<close>

definition copy_fail_env :: "(nat, nat, nat) env" where
  "copy_fail_env =
     example_env [Inl (LibraryError ''PdfReadError'')] [Inr (Some text21)] [7]
       (\<lambda>i. Inr (200 + i)) (\<lambda>i. Inr [])"

text \<open>One page whose OCR document is produced, but whose text recognition raises.\<close>

definition text_fail_env :: "(nat, nat, nat) env" where
  "text_fail_env =
     example_env [Inr 100] [Inr None] [7] (\<lambda>i. Inr (200 + i))
       (\<lambda>i. Inl (LibraryError ''TesseractError''))"

text \<open>
  Three pages, the middle one with text of its own; OCR reads \<open>A\<close> and \<open>C\<close> (with
  white space around) from the others. In the second world the middle page is blank and
  OCR returns a form feed for it.
\<close>

definition abc_env :: "(nat, nat, nat) env" where
  "abc_env =
     example_env [Inr 100, Inr 101, Inr 102] [Inr None, Inr (Some text21), Inr None] [7, 8, 9]
       (\<lambda>i. Inr (200 + i))
       (\<lambda>i. if i = 7 then Inr (py_str ''A'' @ [10, 12]) else Inr ([32] @ py_str ''C''))"

definition blank_page_env :: "(nat, nat, nat) env" where
  "blank_page_env =
     example_env [Inr 100, Inr 101, Inr 102] [Inr None, Inr None, Inr None] [7, 8, 9]
       (\<lambda>i. Inr (200 + i))
       (\<lambda>i. if i = 7 then Inr (py_str ''A'') else if i = 8 then Inr [12] else Inr (py_str ''C''))"

text \<open>The command line with its defaults, for a given input.\<close>

definition example_args :: "path \<Rightarrow> args" where
  "example_args p =
     \<lparr>arg_input = p, arg_out_dir = None, arg_dpi = 300, arg_lang = ''eng'', arg_txt = False,
      arg_no_pdf = False, arg_skip_text_pages = False, arg_poppler_path = None,
      arg_tesseract_cmd = None, arg_config = None, arg_batch = False\<rparr>"

text \<open>A directory with three PDF files and a text file; the second PDF cannot be rasterized.\<close>

definition inbox :: path where
  "inbox = \<lparr>parent = ''data'', name = ''inbox''\<rparr>"

definition batch_env :: "(nat, nat, nat) env" where
  "batch_env =
     (example_env [Inr 100] [Inr None] [7] (\<lambda>i. Inr (200 + i)) (\<lambda>i. Inr []))
       \<lparr>is_file := (\<lambda>p. p \<noteq> inbox), is_dir := (\<lambda>p. p = inbox),
        iterdir := (\<lambda>p. Inr [\<lparr>parent = ''data/inbox'', name = ''c.pdf''\<rparr>,
                               \<lparr>parent = ''data/inbox'', name = ''notes.txt''\<rparr>,
                               \<lparr>parent = ''data/inbox'', name = ''a.pdf''\<rparr>,
                               \<lparr>parent = ''data/inbox'', name = ''b.PDF''\<rparr>]),
        convert_from_path := (\<lambda>p d pp. if name p = ''b.PDF''
                                        then Inl (LibraryError ''PDFPageCountError'')
                                        else Inr [7])\<rparr>"

text \<open>Tesseract is installed but Poppler is not; and the other way round.\<close>

definition no_poppler_env :: "(nat, nat, nat) env" where
  "no_poppler_env =
     (example_env [Inr 100] [Inr None] [7] (\<lambda>i. Inr (200 + i)) (\<lambda>i. Inr []))
       \<lparr>convert_from_path := (\<lambda>p d pp. Inl (LibraryError ''PDFInfoNotInstalledError''))\<rparr>"

definition no_tesseract_env :: "(nat, nat, nat) env" where
  "no_tesseract_env =
     (example_env [Inr 100] [Inr None] [7] (\<lambda>i. Inr (200 + i)) (\<lambda>i. Inr []))
       \<lparr>tesseract_version := (\<lambda>c. Inl (LibraryError ''TesseractNotFoundError''))\<rparr>"

section \<open>Running the examples\<close>

text \<open>The definitions to unfold when a run is evaluated on an example.\<close>

lemmas run_defs =
  process_single_pdf_def pdf_to_images_def if_truthy_def or_empty_def stem_def rfind_dot_def
  enumerate_from0_def process_page_def page_try_def copy_page_def ocr_page_def add_original_def
  ocr_image_to_pdf_bytes_def ocr_image_to_text_def merge_pdf_bytes_into_writer_def emit_def
  pdf_page_has_text_def pdf_page_has_text_try_def write_pdf_step_def write_txt_step_def
  combined_text_def str_of_path_def strip_def is_space_def py_str_def page_break_def
  example_env_def example_opts_def scan_def text21_def text20_def Let_def

lemmas example_defs =
  threshold_env_def short_env_def long_env_def degraded_env_def copy_fail_env_def
  text_fail_env_def abc_env_def blank_page_env_def ocr_single_page_def ocr_text_ok_def

section \<open>Properties of the classifier\<close>

lemma strip_Nil: "strip [] = []"
  by (simp add: strip_def)

lemma pdf_page_has_text_total: "\<exists>b. pdf_page_has_text env p i = Inr b"
  by (auto simp: pdf_page_has_text_def split: sum.split)

lemma pdf_page_has_text_TrueD:
  assumes "pdf_page_has_text env p (int i) = Inr True"
  obtains pages tx where "plumber_open env p = Inr pages" "i < length pages"
    "pages ! i = Inr (Some tx)" "20 < length (strip tx)" "tx \<noteq> []"
  using assms
  by (auto simp: pdf_page_has_text_def pdf_page_has_text_try_def
      split: sum.splits option.splits if_splits)

text \<open>
  C3. For a page index within the pages pdfplumber reports, the classifier answers true
  exactly when the page has an extracted text whose length after \<open>strip()\<close> is more
  than 20; a page without text, or whose extraction raises, is answered false. So 21
  characters after trimming give true and 20 give false.
\<close>

theorem classifier_threshold:
  assumes "plumber_open env pdf_path = Inr pages"
    and "0 \<le> page_number" and "page_number < int (length pages)"
  shows "pdf_page_has_text env pdf_path page_number =
           Inr (case pages ! nat page_number of
                  Inr (Some t) \<Rightarrow> 20 < length (strip t) | _ \<Rightarrow> False)"
  using assms
  by (auto simp: pdf_page_has_text_def pdf_page_has_text_try_def strip_Nil
      split: sum.splits option.splits)

theorem classifier_threshold_witness:
  "length (strip text21) = 21 \<and> length (strip text20) = 20 \<and>
   pdf_page_has_text threshold_env scan 0 = Inr True \<and>
   pdf_page_has_text threshold_env scan 1 = Inr False"
proof -
  have pages: "plumber_open threshold_env scan = Inr [Inr (Some text21), Inr (Some text20)]"
    by (simp add: threshold_env_def example_env_def)
  have l21: "length (strip text21) = 21"
    by (simp add: text21_def strip_def is_space_def py_str_def)
  have l20: "length (strip text20) = 20"
    by (simp add: text20_def strip_def is_space_def py_str_def)
  from classifier_threshold [OF pages, of 0] classifier_threshold [OF pages, of 1] l21 l20
  show ?thesis by simp
qed

text \<open>
  C9. The classifier never raises, whatever the integer index: it returns a truth
  value. For an index outside the pages pdfplumber reports, negative ones included
  (and for a document pdfplumber cannot open), that value is false.
\<close>

theorem classifier_total_outside_range:
  "(\<exists>b. pdf_page_has_text env pdf_path page_number = Inr b) \<and>
   ((\<forall>pages. plumber_open env pdf_path = Inr pages \<longrightarrow>
        page_number < 0 \<or> int (length pages) \<le> page_number) \<longrightarrow>
    pdf_page_has_text env pdf_path page_number = Inr False)"
  by (auto simp: pdf_page_has_text_def pdf_page_has_text_try_def
      split: sum.splits option.splits)

theorem classifier_total_outside_range_witness:
  "pdf_page_has_text threshold_env scan (- 1) = Inr False \<and>
   pdf_page_has_text threshold_env scan 2 = Inr False"
proof -
  have pages: "plumber_open threshold_env scan = Inr [Inr (Some text21), Inr (Some text20)]"
    by (simp add: threshold_env_def example_env_def)
  from classifier_total_outside_range [of threshold_env scan "- 1"]
    classifier_total_outside_range [of threshold_env scan 2] pages
  show ?thesis by simp
qed

section \<open>One iteration of the page loop\<close>

lemma emit_simps [simp]:
  "writer (emit ev s) = writer s" "all_text (emit ev s) = all_text s"
  "trace (emit ev s) = trace s @ [ev]"
  by (simp_all add: emit_def)

lemma add_pages_single:
  "length ps = 1 \<Longrightarrow>
     (\<exists>q. add_pages w ps = (w @ [Page q], None)) \<or> (\<exists>e. add_pages w ps = (w, Some e))"
  by (cases ps; cases "hd ps") auto

lemma ocr_page_writer:
  assumes "ocr_single_page env opt img" and "ocr_text_ok env opt img"
  shows "(\<exists>s'. ocr_page env opt i img s = (None, s') \<and> length (writer s') = Suc (length (writer s)))
       \<or> (\<exists>e s'. ocr_page env opt i img s = (Some e, s') \<and> writer s' = writer s)"
proof (cases "ocr_image_to_pdf_bytes env img (lang opt) (tesseract_config opt)")
  case (Inl e)
  then show ?thesis by (simp add: ocr_page_def)
next
  case (Inr b)
  show ?thesis
  proof (cases "pypdf_read_bytes env b")
    case (Inl e)
    with Inr show ?thesis by (simp add: ocr_page_def merge_pdf_bytes_into_writer_def)
  next
    case ps: (Inr ps)
    with Inr assms(1) have "length ps = 1" by (simp add: ocr_single_page_def)
    from add_pages_single [OF this, of "writer s"] Inr ps assms(2) show ?thesis
      by (auto simp: ocr_page_def merge_pdf_bytes_into_writer_def ocr_text_ok_def Let_def
          split: sum.splits)
  qed
qed

lemma add_original_cases:
  obtains (copied) pg where "i < length rd" "rd ! i = Inr pg"
      "\<And>w. add_original rd i w = (w @ [Page pg], None)"
  | (failed) e where "\<And>w. add_original rd i w = (w, Some e)"
      "i < length rd \<longrightarrow> rd ! i = Inl e"
proof (cases "i < length rd")
  case True
  then show ?thesis
    by (cases "rd ! i") (auto simp: add_original_def intro: copied failed)
next
  case False
  then show ?thesis by (auto simp: add_original_def intro: failed)
qed

lemma copy_page_failed:
  assumes "add_original rd i (writer s) = (w, Some e)"
  shows "copy_page env p rd opt i s = (Some e, s)"
  using assms by (cases rule: add_original_cases [of i rd]) (auto simp: copy_page_def)

lemma copy_page_copied:
  assumes "pdf_page_has_text env p (int i) = Inr True" and "i < length rd" and "rd ! i = Inr pg"
  shows "\<exists>tx. copy_page env p rd opt i s =
           (None, s\<lparr>writer := writer s @ [Page pg],
                    all_text := (if output_txt opt then all_text s @ [tx] else all_text s)\<rparr>)"
proof -
  from assms(1) obtain pages tx where "plumber_open env p = Inr pages" "i < length pages"
    "pages ! i = Inr (Some tx)"
    by (rule pdf_page_has_text_TrueD)
  with assms(2,3) show ?thesis
    by (auto simp: copy_page_def add_original_def Let_def)
qed

lemma process_page_of_try:
  "page_try env p rd opt i img s = (None, s1) \<Longrightarrow> process_page env p rd opt i img s = s1"
  "page_try env p rd opt i img s = (Some e, s1) \<Longrightarrow>
     length (writer (process_page env p rd opt i img s)) = Suc (length (writer s1)) \<and>
     trace (process_page env p rd opt i img s) = trace s1 @ [Log ERROR (MsgPageError (i + 1) e)] \<and>
     all_text (process_page env p rd opt i img s) = all_text s1"
  by (cases rule: add_original_cases [of i rd]; simp add: process_page_def Let_def)+

lemma page_try_writer:
  assumes "ocr_single_page env opt img" and "ocr_text_ok env opt img"
  shows "(\<exists>s1. page_try env p rd opt i img s = (None, s1) \<and>
            length (writer s1) = Suc (length (writer s)))
       \<or> (\<exists>e s1. page_try env p rd opt i img s = (Some e, s1) \<and> writer s1 = writer s)"
proof (cases "skip_if_text opt \<and> pdf_page_has_text env p (int i) = Inr True")
  case False
  obtain b where "pdf_page_has_text env p (int i) = Inr b"
    using pdf_page_has_text_total by blast
  with False have "page_try env p rd opt i img s = ocr_page env opt i img s"
    by (cases b) (auto simp: page_try_def)
  with ocr_page_writer [OF assms, of i s] show ?thesis by simp
next
  case True
  let ?s0 = "emit (Log INFO (MsgSkipPage (i + 1))) s"
  show ?thesis
  proof (cases rule: add_original_cases [of i rd])
    case (copied pg)
    from copy_page_copied [OF _ copied(1,2), of env p opt ?s0] True
    show ?thesis by (auto simp: page_try_def)
  next
    case (failed e)
    then have "copy_page env p rd opt i ?s0 = (Some e, ?s0)"
      by (simp add: copy_page_failed)
    with True have "page_try env p rd opt i img s =
        ocr_page env opt i img (emit (Log WARNING (MsgCopyFailed (i + 1) e)) ?s0)"
      by (simp add: page_try_def)
    with ocr_page_writer [OF assms, of i "emit (Log WARNING (MsgCopyFailed (i + 1) e)) ?s0"]
    show ?thesis by simp
  qed
qed

lemma process_page_length:
  assumes "ocr_single_page env opt img" and "ocr_text_ok env opt img"
  shows "length (writer (process_page env p rd opt i img s)) = Suc (length (writer s))"
  using page_try_writer [OF assms, of p rd i s]
  by (auto simp: process_page_of_try)

lemma add_pages_mono: "add_pages w ps = (w', r) \<Longrightarrow> set w \<subseteq> set w'"
  by (induction w ps rule: add_pages.induct) auto

lemma merge_mono: "merge_pdf_bytes_into_writer env w b = (w', r) \<Longrightarrow> set w \<subseteq> set w'"
  by (auto simp: merge_pdf_bytes_into_writer_def split: sum.splits dest: add_pages_mono)

lemma ocr_page_sets:
  assumes "ocr_page env opt i img s = (r, s')"
  shows "set (trace s) \<subseteq> set (trace s') \<and>
         set (trace s') \<subseteq> set (trace s) \<union> {OcrPdf i, OcrText i} \<and>
         OcrPdf i \<in> set (trace s') \<and> set (writer s) \<subseteq> set (writer s')"
proof (cases "ocr_image_to_pdf_bytes env img (lang opt) (tesseract_config opt)")
  case (Inl e)
  with assms show ?thesis by (auto simp: ocr_page_def)
next
  case (Inr b)
  obtain w' r' where m: "merge_pdf_bytes_into_writer env (writer s) b = (w', r')"
    by (cases "merge_pdf_bytes_into_writer env (writer s) b")
  then have "set (writer s) \<subseteq> set w'" by (rule merge_mono)
  with assms Inr m show ?thesis
    by (cases r'; cases "ocr_image_to_text env img (lang opt) (tesseract_config opt)")
      (auto simp: ocr_page_def Let_def split: if_splits)
qed

lemma copy_page_sets:
  assumes "copy_page env p rd opt i s = (r, s')"
  shows "trace s' = trace s \<and> set (writer s) \<subseteq> set (writer s')"
  using assms
  by (cases rule: add_original_cases [of i rd])
    (auto simp: copy_page_def Let_def split: sum.splits option.splits if_splits)

lemma page_try_sets:
  assumes "page_try env p rd opt i img s = (r, s')"
  shows "set (trace s) \<subseteq> set (trace s') \<and>
         (\<forall>ev \<in> set (trace s'). ev \<in> set (trace s) \<or> touches i ev) \<and>
         (OcrPdf i \<in> set (trace s') \<or> Log INFO (MsgSkipPage (i + 1)) \<in> set (trace s')) \<and>
         set (writer s) \<subseteq> set (writer s')"
proof (cases "skip_if_text opt \<and> pdf_page_has_text env p (int i) = Inr True")
  case False
  obtain b where "pdf_page_has_text env p (int i) = Inr b"
    using pdf_page_has_text_total by blast
  with False have "page_try env p rd opt i img s = ocr_page env opt i img s"
    by (cases b) (auto simp: page_try_def)
  with assms have "ocr_page env opt i img s = (r, s')" by simp
  from ocr_page_sets [OF this] show ?thesis by auto
next
  case True
  let ?s0 = "emit (Log INFO (MsgSkipPage (i + 1))) s"
  obtain r0 s0 where c: "copy_page env p rd opt i ?s0 = (r0, s0)"
    by (cases "copy_page env p rd opt i ?s0")
  from copy_page_sets [OF c] have s0: "trace s0 = trace s @ [Log INFO (MsgSkipPage (i + 1))]"
    "set (writer s) \<subseteq> set (writer s0)" by simp_all
  show ?thesis
  proof (cases r0)
    case None
    with True c assms have "s' = s0" by (simp add: page_try_def)
    with s0 show ?thesis by auto
  next
    case (Some e)
    with True c assms have
      "ocr_page env opt i img (emit (Log WARNING (MsgCopyFailed (i + 1) e)) s0) = (r, s')"
      by (simp add: page_try_def)
    from ocr_page_sets [OF this] s0 show ?thesis by auto
  qed
qed

lemma process_page_sets:
  "set (trace s) \<subseteq> set (trace (process_page env p rd opt i img s)) \<and>
   (\<forall>ev \<in> set (trace (process_page env p rd opt i img s)). ev \<in> set (trace s) \<or> touches i ev) \<and>
   (OcrPdf i \<in> set (trace (process_page env p rd opt i img s)) \<or>
    Log INFO (MsgSkipPage (i + 1)) \<in> set (trace (process_page env p rd opt i img s))) \<and>
   set (writer s) \<subseteq> set (writer (process_page env p rd opt i img s))"
proof -
  obtain r s1 where t: "page_try env p rd opt i img s = (r, s1)"
    by (cases "page_try env p rd opt i img s")
  note sets = page_try_sets [OF t]
  show ?thesis
  proof (cases r)
    case None
    with t have "process_page env p rd opt i img s = s1" by (simp add: process_page_of_try)
    with sets show ?thesis by simp
  next
    case (Some e)
    with t have "trace (process_page env p rd opt i img s) =
        trace s1 @ [Log ERROR (MsgPageError (i + 1) e)]"
      by (simp add: process_page_of_try)
    moreover from Some t have "set (writer s1) \<subseteq> set (writer (process_page env p rd opt i img s))"
      by (cases rule: add_original_cases [of i rd]) (auto simp: process_page_def Let_def)
    ultimately show ?thesis using sets by auto
  qed
qed

section \<open>The effect of an iteration does not depend on the state\<close>

lemma add_pages_uniform: "\<exists>ws r. \<forall>w. add_pages w ps = (w @ ws, r)"
proof (induction ps)
  case Nil
  then show ?case by simp
next
  case (Cons x ps)
  then obtain ws r where IH: "\<And>w. add_pages w ps = (w @ ws, r)" by auto
  show ?case
  proof (cases x)
    case (Inl e)
    then show ?thesis by simp
  next
    case (Inr q)
    then have "\<forall>w. add_pages w (x # ps) = (w @ (Page q # ws), r)" by (simp add: IH)
    then show ?thesis by blast
  qed
qed

lemma merge_uniform: "\<exists>ws r. \<forall>w. merge_pdf_bytes_into_writer env w b = (w @ ws, r)"
proof (cases "pypdf_read_bytes env b")
  case (Inl e)
  then have "\<forall>w. merge_pdf_bytes_into_writer env w b = (w @ [], Some e)"
    by (simp add: merge_pdf_bytes_into_writer_def)
  then show ?thesis by blast
next
  case (Inr ps)
  with add_pages_uniform [of ps] show ?thesis
    by (simp add: merge_pdf_bytes_into_writer_def)
qed

lemma grow_simps [simp]:
  "writer (grow ws ts evs s) = writer s @ ws"
  "all_text (grow ws ts evs s) = all_text s @ ts"
  "trace (grow ws ts evs s) = trace s @ evs"
  "grow ws ts evs (grow ws' ts' evs' s) = grow (ws' @ ws) (ts' @ ts) (evs' @ evs) s"
  "emit ev (grow ws ts evs s) = grow ws ts (evs @ [ev]) s"
  "(grow ws ts evs s)\<lparr>writer := writer s @ ws @ ws'\<rparr> = grow (ws @ ws') ts evs s"
  by (simp_all add: grow_def emit_def)

lemma emit_grow: "emit ev s = grow [] [] [ev] s"
  by (simp add: grow_def emit_def)

lemma ocr_page_uniform:
  "\<exists>r ws ts evs. \<forall>s. ocr_page env opt i img s = (r, grow ws ts evs s)"
proof (cases "ocr_image_to_pdf_bytes env img (lang opt) (tesseract_config opt)")
  case (Inl e)
  then have "\<forall>s. ocr_page env opt i img s = (Some e, grow [] [] [OcrPdf i] s)"
    by (simp add: ocr_page_def emit_grow)
  then show ?thesis by blast
next
  case (Inr b)
  from merge_uniform [of env b]
  obtain ws r where m: "\<And>w. merge_pdf_bytes_into_writer env w b = (w @ ws, r)"
    by auto
  show ?thesis
  proof (cases r)
    case (Some e)
    with Inr m have "\<forall>s. ocr_page env opt i img s = (Some e, grow ws [] [OcrPdf i] s)"
      by (simp add: ocr_page_def grow_def emit_def)
    then show ?thesis by blast
  next
    case None
    show ?thesis
    proof (cases "output_txt opt")
      case False
      with None Inr m have "\<forall>s. ocr_page env opt i img s = (None, grow ws [] [OcrPdf i] s)"
        by (simp add: ocr_page_def grow_def emit_def)
      then show ?thesis by blast
    next
      case True
      show ?thesis
      proof (cases "ocr_image_to_text env img (lang opt) (tesseract_config opt)")
        case (Inl e)
        with True None Inr m
        have "\<forall>s. ocr_page env opt i img s = (Some e, grow ws [] [OcrPdf i, OcrText i] s)"
          by (simp add: ocr_page_def grow_def emit_def)
        then show ?thesis by blast
      next
        case t: (Inr t)
        with True None Inr m
        have "\<forall>s. ocr_page env opt i img s = (None, grow ws [t] [OcrPdf i, OcrText i] s)"
          by (simp add: ocr_page_def grow_def emit_def)
        then show ?thesis by blast
      qed
    qed
  qed
qed

lemma grow_Nil [simp]: "grow [] [] [] s = s"
  by (simp add: grow_def)

lemma copy_page_uniform:
  "\<exists>r ws ts. \<forall>s. copy_page env p rd opt i s = (r, grow ws ts [] s)"
proof (cases rule: add_original_cases [of i rd])
  case (failed e)
  then have "\<forall>s. copy_page env p rd opt i s = (Some e, grow [] [] [] s)"
    by (simp add: copy_page_def)
  then show ?thesis by blast
next
  case (copied pg)
  have w: "s\<lparr>writer := writer s @ [Page pg]\<rparr> = grow [Page pg] [] [] s" for s
    by (simp add: grow_def)
  have wt: "s\<lparr>writer := writer s @ [Page pg], all_text := all_text s @ [t]\<rparr> = grow [Page pg] [t] [] s"
    for s t
    by (simp add: grow_def)
  show ?thesis
  proof (cases "output_txt opt")
    case False
    with copied have "\<forall>s. copy_page env p rd opt i s = (None, grow [Page pg] [] [] s)"
      by (simp add: copy_page_def w)
    then show ?thesis by blast
  next
    case True
    show ?thesis
    proof (cases "plumber_open env p")
      case (Inl e)
      with True copied have "\<forall>s. copy_page env p rd opt i s = (Some e, grow [Page pg] [] [] s)"
        by (simp add: copy_page_def w)
      then show ?thesis by blast
    next
      case (Inr pages)
      show ?thesis
      proof (cases "i < length pages")
        case False
        with Inr True copied
        have "\<forall>s. copy_page env p rd opt i s =
                (Some (LibraryError ''list index out of range''), grow [Page pg] [] [] s)"
          by (simp add: copy_page_def w)
        then show ?thesis by blast
      next
        case lt: True
        show ?thesis
        proof (cases "pages ! i")
          case (Inl e)
          with lt Inr True copied
          have "\<forall>s. copy_page env p rd opt i s = (Some e, grow [Page pg] [] [] s)"
            by (simp add: copy_page_def w)
          then show ?thesis by blast
        next
          case tx: (Inr tx)
          with lt Inr True copied
          have "\<forall>s. copy_page env p rd opt i s =
                  (None, grow [Page pg] [case tx of None \<Rightarrow> [] | Some t \<Rightarrow> t] [] s)"
            by (cases tx) (simp_all add: copy_page_def wt)
          then show ?thesis by blast
        qed
      qed
    qed
  qed
qed

lemma page_try_uniform:
  "\<exists>r ws ts evs. \<forall>s. page_try env p rd opt i img s = (r, grow ws ts evs s)"
proof (cases "skip_if_text opt \<and> pdf_page_has_text env p (int i) = Inr True")
  case False
  obtain b where "pdf_page_has_text env p (int i) = Inr b"
    using pdf_page_has_text_total by blast
  with False have "\<forall>s. page_try env p rd opt i img s = ocr_page env opt i img s"
    by (cases b) (auto simp: page_try_def)
  with ocr_page_uniform [of env opt i img] show ?thesis by simp
next
  case True
  from copy_page_uniform [of env p rd opt i]
  obtain r0 ws0 ts0 where c: "\<And>s. copy_page env p rd opt i s = (r0, grow ws0 ts0 [] s)"
    by auto
  show ?thesis
  proof (cases r0)
    case None
    with True c have "\<forall>s. page_try env p rd opt i img s =
        (None, grow ws0 ts0 [Log INFO (MsgSkipPage (i + 1))] s)"
      by (simp add: page_try_def emit_grow)
    then show ?thesis by blast
  next
    case (Some e)
    from ocr_page_uniform [of env opt i img]
    obtain r ws ts evs where o: "\<And>s. ocr_page env opt i img s = (r, grow ws ts evs s)"
      by auto
    from Some True c have "\<forall>s. page_try env p rd opt i img s =
        (r, grow (ws0 @ ws) (ts0 @ ts)
              ([Log INFO (MsgSkipPage (i + 1)), Log WARNING (MsgCopyFailed (i + 1) e)] @ evs) s)"
      by (simp add: page_try_def emit_grow o)
    then show ?thesis by blast
  qed
qed

lemma process_page_uniform:
  "\<exists>ws ts evs. \<forall>s. process_page env p rd opt i img s = grow ws ts evs s"
proof -
  from page_try_uniform [of env p rd opt i img]
  obtain r ws ts evs where t: "\<And>s. page_try env p rd opt i img s = (r, grow ws ts evs s)"
    by auto
  show ?thesis
  proof (cases r)
    case None
    with t have "\<forall>s. process_page env p rd opt i img s = grow ws ts evs s"
      by (simp add: process_page_def)
    then show ?thesis by blast
  next
    case (Some e)
    show ?thesis
    proof (cases rule: add_original_cases [of i rd])
      case (copied pg)
      with Some t have "\<forall>s. process_page env p rd opt i img s =
          grow (ws @ [Page pg]) ts (evs @ [Log ERROR (MsgPageError (i + 1) e)]) s"
        by (simp add: process_page_def Let_def)
      then show ?thesis by blast
    next
      case (failed e')
      with Some t have "\<forall>s. process_page env p rd opt i img s =
          grow (ws @ [BlankPage 595 842]) ts (evs @ [Log ERROR (MsgPageError (i + 1) e)]) s"
        by (simp add: process_page_def Let_def)
      then show ?thesis by blast
    qed
  qed
qed

lemma process_page_effect:
  "process_page env p rd opt i img s =
     grow (writer (page_effect env p rd opt (i, img))) (all_text (page_effect env p rd opt (i, img)))
       (trace (page_effect env p rd opt (i, img))) s"
proof -
  from process_page_uniform [of env p rd opt i img]
  obtain ws ts evs where u: "\<And>s. process_page env p rd opt i img s = grow ws ts evs s"
    by auto
  then show ?thesis by (simp add: page_effect_def)
qed

lemma process_pages_effect:
  "process_pages env p rd opt xs s =
     grow (concat (map (\<lambda>x. writer (page_effect env p rd opt x)) xs))
       (concat (map (\<lambda>x. all_text (page_effect env p rd opt x)) xs))
       (concat (map (\<lambda>x. trace (page_effect env p rd opt x)) xs)) s"
proof (induction xs arbitrary: s)
  case Nil
  then show ?case by simp
next
  case (Cons x xs)
  obtain i img where "x = (i, img)" by (cases x)
  with Cons.IH show ?case
    by (simp add: process_page_effect [of env p rd opt i img s])
qed

section \<open>The run on one document\<close>

lemma process_single_pdf_late:
  assumes "mkdir env (case out_dir opt of None \<Rightarrow> parent p | Some d \<Rightarrow> d) = Inr u"
    and "pypdf_open env p = Inr rd"
    and "pdf_to_images env p (dpi opt) (poppler_path opt) = Inr images"
  shows "\<exists>w. fst (process_single_pdf env p opt) = trace (assemble env p opt rd images) @ w \<and>
           (\<forall>ev \<in> set w. write_event (writer (assemble env p opt rd images))
                             (combined_text (all_text (assemble env p opt rd images))) ev) \<and>
           (\<forall>r. snd (process_single_pdf env p opt) = Inr r \<longrightarrow>
              r_pages r = length rd \<and> r_input r = str_of_path p \<and>
              (output_pdf opt \<longrightarrow> (\<exists>q. WrotePdf q (writer (assemble env p opt rd images)) \<in> set w)) \<and>
              (output_txt opt \<longrightarrow>
                 (\<exists>q. WroteTxt q (combined_text (all_text (assemble env p opt rd images))) \<in> set w)))"
proof -
  let ?S = "assemble env p opt rd images"
  let ?d = "case out_dir opt of None \<Rightarrow> parent p | Some d \<Rightarrow> d"
  let ?op = "if output_pdf opt
             then Some \<lparr>parent = ?d, name = stem p @ ''_searchable.pdf''\<rparr> else None"
  let ?ot = "if output_txt opt then Some \<lparr>parent = ?d, name = stem p @ ''.txt''\<rparr> else None"
  have unfold: "process_single_pdf env p opt =
      (case write_pdf_step env ?op ?S of
         (t2, Some e) \<Rightarrow> (t2, Inl e)
       | (t2, None) \<Rightarrow>
           (case write_txt_step env ?ot ?S t2 of
              (t3, Some e) \<Rightarrow> (t3, Inl e)
            | (t3, None) \<Rightarrow>
                (t3, Inr (Summary (str_of_path p) (map_option str_of_path ?op)
                            (map_option str_of_path ?ot) (length rd)))))"
    using assms by (simp add: process_single_pdf_def assemble_def Let_def if_distrib cong: if_cong)
  show ?thesis
    unfolding unfold
    by (auto simp: write_pdf_step_def write_txt_step_def split: sum.splits)
qed

lemma enumerate_from0_map: "enumerate_from0 xs = map (\<lambda>i. (i, xs ! i)) [0..<length xs]"
  unfolding enumerate_from0_def by (rule nth_equalityI) auto

lemma in_set_enumerate_from0:
  "(i, x) \<in> set (enumerate_from0 xs) \<longleftrightarrow> i < length xs \<and> x = xs ! i"
  by (auto simp: enumerate_from0_map)

lemma page_effect_events:
  "(\<forall>ev \<in> set (trace (page_effect env p rd opt (i, img))). touches i ev) \<and>
   (OcrPdf i \<in> set (trace (page_effect env p rd opt (i, img))) \<or>
    Log INFO (MsgSkipPage (i + 1)) \<in> set (trace (page_effect env p rd opt (i, img))))"
  using process_page_sets [of "\<lparr>writer = [], all_text = [], trace = []\<rparr>" env p rd opt i img]
  by (simp add: page_effect_def)

lemma page_effect_length:
  assumes "ocr_single_page env opt img" and "ocr_text_ok env opt img"
  shows "length (writer (page_effect env p rd opt (i, img))) = 1"
  using process_page_length [OF assms, of p rd i "\<lparr>writer = [], all_text = [], trace = []\<rparr>"]
  by (simp add: page_effect_def)

lemma process_page_copied:
  assumes "skip_if_text opt" and "pdf_page_has_text env p (int i) = Inr True"
    and "i < length rd" and "rd ! i = Inr pg"
  shows "writer (process_page env p rd opt i img s) = writer s @ [Page pg] \<and>
         trace (process_page env p rd opt i img s) = trace s @ [Log INFO (MsgSkipPage (i + 1))]"
proof -
  let ?s0 = "emit (Log INFO (MsgSkipPage (i + 1))) s"
  from copy_page_copied [OF assms(2-4), of opt ?s0]
  obtain tx where "copy_page env p rd opt i ?s0 =
      (None, ?s0\<lparr>writer := writer ?s0 @ [Page pg],
                 all_text := (if output_txt opt then all_text ?s0 @ [tx] else all_text ?s0)\<rparr>)"
    by blast
  with assms(1,2) show ?thesis
    by (simp add: process_page_def page_try_def)
qed

lemma page_effect_copied:
  assumes "skip_if_text opt" and "pdf_page_has_text env p (int i) = Inr True"
    and "i < length rd" and "rd ! i = Inr pg"
  shows "writer (page_effect env p rd opt (i, img)) = [Page pg] \<and>
         trace (page_effect env p rd opt (i, img)) = [Log INFO (MsgSkipPage (i + 1))]"
  using process_page_copied [OF assms, of img "\<lparr>writer = [], all_text = [], trace = []\<rparr>"]
  by (simp add: page_effect_def)

lemma assemble_effect:
  "writer (assemble env p opt rd images) =
     concat (map (\<lambda>x. writer (page_effect env p rd opt x)) (enumerate_from0 images))"
  "all_text (assemble env p opt rd images) =
     concat (map (\<lambda>x. all_text (page_effect env p rd opt x)) (enumerate_from0 images))"
  "trace (assemble env p opt rd images) =
     (if length images \<noteq> length rd
      then [Log INFO (MsgProcessing p (dpi opt) (lang opt)),
            Log WARNING (MsgImageCount (length images) (length rd))]
      else [Log INFO (MsgProcessing p (dpi opt) (lang opt))]) @
     concat (map (\<lambda>x. trace (page_effect env p rd opt x)) (enumerate_from0 images))"
  by (simp_all add: assemble_def process_pages_effect)

lemma length_concat_ones:
  "(\<forall>x \<in> set xs. length (f x) = 1) \<Longrightarrow> length (concat (map f xs)) = length xs"
  by (induction xs) auto

lemma assemble_length:
  assumes "\<forall>img \<in> set images. ocr_single_page env opt img \<and> ocr_text_ok env opt img"
  shows "length (writer (assemble env p opt rd images)) = length images"
proof -
  have "\<forall>x \<in> set (enumerate_from0 images). length (writer (page_effect env p rd opt x)) = 1"
  proof
    fix x assume "x \<in> set (enumerate_from0 images)"
    then obtain i where "x = (i, images ! i)" "i < length images"
      by (auto simp: enumerate_from0_map)
    with assms show "length (writer (page_effect env p rd opt x)) = 1"
      by (simp add: page_effect_length)
  qed
  then have "length (writer (assemble env p opt rd images)) = length (enumerate_from0 images)"
    unfolding assemble_effect by (rule length_concat_ones)
  then show ?thesis by (simp add: enumerate_from0_def)
qed

lemma assemble_trace_pages:
  assumes "ev \<in> set (trace (assemble env p opt rd images))"
  shows "(\<exists>l m. ev = Log l m \<and> (m = MsgProcessing p (dpi opt) (lang opt)
                                \<or> m = MsgImageCount (length images) (length rd)))
       \<or> (\<exists>i < length images. ev \<in> set (trace (page_effect env p rd opt (i, images ! i))))"
  using assms
  by (auto simp: assemble_effect in_set_enumerate_from0 split: if_splits)

lemma assemble_trace_has_page:
  assumes "i < length images"
  shows "set (trace (page_effect env p rd opt (i, images ! i)))
           \<subseteq> set (trace (assemble env p opt rd images))"
proof -
  from assms have "(i, images ! i) \<in> set (enumerate_from0 images)"
    by (simp add: in_set_enumerate_from0)
  then show ?thesis by (auto simp: assemble_effect)
qed

lemma assemble_writer_has_page:
  assumes "i < length images"
  shows "set (writer (page_effect env p rd opt (i, images ! i)))
           \<subseteq> set (writer (assemble env p opt rd images))"
proof -
  from assms have "(i, images ! i) \<in> set (enumerate_from0 images)"
    by (simp add: in_set_enumerate_from0)
  then show ?thesis by (auto simp: assemble_effect)
qed

lemma process_single_pdf_cases:
  obtains (early) e where
      "set (fst (process_single_pdf env p opt)) \<subseteq> {Log INFO (MsgProcessing p (dpi opt) (lang opt))}"
      "snd (process_single_pdf env p opt) = Inl e"
  | (late) rd images w where
      "pypdf_open env p = Inr rd" "pdf_to_images env p (dpi opt) (poppler_path opt) = Inr images"
      "fst (process_single_pdf env p opt) = trace (assemble env p opt rd images) @ w"
      "\<forall>ev \<in> set w. write_event (writer (assemble env p opt rd images))
                         (combined_text (all_text (assemble env p opt rd images))) ev"
      "\<forall>r. snd (process_single_pdf env p opt) = Inr r \<longrightarrow>
              r_pages r = length rd \<and> r_input r = str_of_path p \<and>
              (output_pdf opt \<longrightarrow> (\<exists>q. WrotePdf q (writer (assemble env p opt rd images)) \<in> set w)) \<and>
              (output_txt opt \<longrightarrow>
                 (\<exists>q. WroteTxt q (combined_text (all_text (assemble env p opt rd images))) \<in> set w))"
proof (cases "mkdir env (case out_dir opt of None \<Rightarrow> parent p | Some d \<Rightarrow> d)")
  case (Inl e)
  then show ?thesis
    by (intro early [of e]) (auto simp: process_single_pdf_def Let_def)
next
  case mk: (Inr u)
  show ?thesis
  proof (cases "pypdf_open env p")
    case (Inl e)
    with mk show ?thesis
      by (intro early [of "RuntimeError (''Failed to read PDF file with PyPDF2: '' @ str_of_exn e)"])
        (auto simp: process_single_pdf_def Let_def)
  next
    case rd: (Inr rd)
    show ?thesis
    proof (cases "pdf_to_images env p (dpi opt) (poppler_path opt)")
      case (Inl e)
      with mk rd show ?thesis
        by (intro early [of e]) (auto simp: process_single_pdf_def Let_def)
    next
      case (Inr images)
      from process_single_pdf_late [OF mk rd Inr] rd Inr show ?thesis
        by (elim exE conjE) (rule late)
    qed
  qed
qed

lemma written_pdf_is_assembled:
  assumes "WrotePdf q ps \<in> set (fst (process_single_pdf env p opt))"
  obtains rd images where "pypdf_open env p = Inr rd"
    "pdf_to_images env p (dpi opt) (poppler_path opt) = Inr images"
    "ps = writer (assemble env p opt rd images)"
proof (cases rule: process_single_pdf_cases [of env p opt])
  case (early e)
  with assms show ?thesis by auto
next
  case (late rd images w)
  from assms late(3) consider "WrotePdf q ps \<in> set (trace (assemble env p opt rd images))"
    | "WrotePdf q ps \<in> set w" by auto
  then show ?thesis
  proof cases
    case 1
    from assemble_trace_pages [OF 1] page_effect_events [of env p rd opt]
    have False by fastforce
    then show ?thesis ..
  next
    case 2
    with late(4) have "ps = writer (assemble env p opt rd images)" by fastforce
    with late(1,2) show ?thesis by (rule that)
  qed
qed

lemma written_pdf_length:
  assumes "pdf_to_images env p (dpi opt) (poppler_path opt) = Inr images"
    and "\<forall>img \<in> set images. ocr_single_page env opt img \<and> ocr_text_ok env opt img"
    and "WrotePdf q ps \<in> set (fst (process_single_pdf env p opt))"
  shows "length ps = length images"
proof -
  from assms(3) obtain rd images' where "pypdf_open env p = Inr rd"
    "pdf_to_images env p (dpi opt) (poppler_path opt) = Inr images'"
    "ps = writer (assemble env p opt rd images')"
    by (rule written_pdf_is_assembled)
  with assms(1,2) show ?thesis by (simp add: assemble_length)
qed

lemma written_pdf_exists:
  assumes "output_pdf opt" and "snd (process_single_pdf env p opt) = Inr r"
  shows "\<exists>q ps. WrotePdf q ps \<in> set (fst (process_single_pdf env p opt))"
proof (cases rule: process_single_pdf_cases [of env p opt])
  case (early e)
  with assms show ?thesis by simp
next
  case (late rd images w)
  with assms show ?thesis by fastforce
qed

section \<open>Page count of the output\<close>

text \<open>
  C1, as amended. The page loop runs over the rasterized images. When the OCR document
  of every image has a single page, and text recognition raises for no image in case
  text output is asked for, then the document written has exactly as many pages as the
  rasterizer delivered images, whichever copy or OCR steps fail: each image
  contributes one page, the original, the OCR page or a blank one. This is the page
  count of the input whenever the rasterizer delivers one image per page. A successful
  run that was asked for the PDF has written one.
\<close>

theorem output_page_count:
  assumes "pdf_to_images env pdf_path (dpi opt) (poppler_path opt) = Inr images"
    and "\<forall>img \<in> set images. ocr_single_page env opt img \<and> ocr_text_ok env opt img"
  shows "(\<forall>q ps. WrotePdf q ps \<in> set (fst (process_single_pdf env pdf_path opt)) \<longrightarrow>
            length ps = length images) \<and>
         (\<forall>r. output_pdf opt \<and> snd (process_single_pdf env pdf_path opt) = Inr r \<longrightarrow>
            (\<exists>q ps. WrotePdf q ps \<in> set (fst (process_single_pdf env pdf_path opt))))"
  using written_pdf_length [OF assms] written_pdf_exists [of opt env pdf_path] by blast

theorem output_page_count_witness:
  "process_single_pdf degraded_env scan (example_opts True False) =
     ([Log INFO (MsgProcessing scan 300 ''eng''),
       Log INFO (MsgSkipPage 1), Log INFO (MsgSkipPage 2),
       Log WARNING (MsgCopyFailed 2 (LibraryError ''PdfReadError'')), OcrPdf 1,
       Log ERROR (MsgPageError 2 (LibraryError ''TesseractError'')), OcrPdf 2,
       Log ERROR (MsgPageError 3 (LibraryError ''TesseractError'')),
       WrotePdf \<lparr>parent = ''in'', name = ''scan_searchable.pdf''\<rparr>
         [Page 100, BlankPage 595 842, Page 102],
       Log INFO (MsgWrotePdf \<lparr>parent = ''in'', name = ''scan_searchable.pdf''\<rparr>)],
      Inr (Summary ''in/scan.pdf'' (Some ''in/scan_searchable.pdf'') None 3)) \<and>
   length [Page 100, BlankPage 595 842, Page (102::nat)] = length [7, 8, 9::nat]"
proof -
  let ?opt = "example_opts True False"
  have run: "process_single_pdf degraded_env scan ?opt =
     ([Log INFO (MsgProcessing scan 300 ''eng''),
       Log INFO (MsgSkipPage 1), Log INFO (MsgSkipPage 2),
       Log WARNING (MsgCopyFailed 2 (LibraryError ''PdfReadError'')), OcrPdf 1,
       Log ERROR (MsgPageError 2 (LibraryError ''TesseractError'')), OcrPdf 2,
       Log ERROR (MsgPageError 3 (LibraryError ''TesseractError'')),
       WrotePdf \<lparr>parent = ''in'', name = ''scan_searchable.pdf''\<rparr>
         [Page 100, BlankPage 595 842, Page 102],
       Log INFO (MsgWrotePdf \<lparr>parent = ''in'', name = ''scan_searchable.pdf''\<rparr>)],
      Inr (Summary ''in/scan.pdf'' (Some ''in/scan_searchable.pdf'') None 3))"
    by (simp add: run_defs example_defs)
  have images: "pdf_to_images degraded_env scan (dpi ?opt) (poppler_path ?opt) = Inr [7, 8, 9]"
    by (simp add: run_defs example_defs)
  have ok: "\<forall>img \<in> set [7, 8, 9]. ocr_single_page degraded_env ?opt img \<and>
              ocr_text_ok degraded_env ?opt img"
    by (simp add: run_defs example_defs)
  from output_page_count [OF images ok] run show ?thesis by simp
qed

text \<open>
  The claim as stated fails for a document of two pages of which the rasterizer delivers
  one image: a warning is logged and the output has one page.
\<close>

theorem page_count_counterexample:
  "pypdf_open short_env scan = Inr [Inr 100, Inr 101] \<and>
   process_single_pdf short_env scan (example_opts False False) =
     ([Log INFO (MsgProcessing scan 300 ''eng''), Log WARNING (MsgImageCount 1 2), OcrPdf 0,
       WrotePdf \<lparr>parent = ''in'', name = ''scan_searchable.pdf''\<rparr> [Page 207],
       Log INFO (MsgWrotePdf \<lparr>parent = ''in'', name = ''scan_searchable.pdf''\<rparr>)],
      Inr (Summary ''in/scan.pdf'' (Some ''in/scan_searchable.pdf'') None 2))"
  by (simp add: run_defs example_defs)

text \<open>
  Beside that, a page whose OCR page is already in the writer when its text recognition
  raises gets the original page appended as well, though the handler is there to keep
  the page count.
\<close>

lemma text_failure_adds_a_page:
  "process_single_pdf text_fail_env scan (example_opts False True) =
     ([Log INFO (MsgProcessing scan 300 ''eng''), OcrPdf 0, OcrText 0,
       Log ERROR (MsgPageError 1 (LibraryError ''TesseractError'')),
       WrotePdf \<lparr>parent = ''in'', name = ''scan_searchable.pdf''\<rparr> [Page 207, Page 100],
       Log INFO (MsgWrotePdf \<lparr>parent = ''in'', name = ''scan_searchable.pdf''\<rparr>),
       WroteTxt \<lparr>parent = ''in'', name = ''scan.txt''\<rparr> [],
       Log INFO (MsgWroteTxt \<lparr>parent = ''in'', name = ''scan.txt''\<rparr>)],
      Inr (Summary ''in/scan.pdf'' (Some ''in/scan_searchable.pdf'') (Some ''in/scan.txt'') 1))"
  by (simp add: run_defs example_defs)

section \<open>The page count in the summary\<close>

lemma summary_pages:
  assumes "snd (process_single_pdf env p opt) = Inr r"
  shows "\<exists>rd. pypdf_open env p = Inr rd \<and> r_pages r = length rd"
proof (cases rule: process_single_pdf_cases [of env p opt])
  case (early e)
  with assms show ?thesis by simp
next
  case (late rd images w)
  with assms show ?thesis by simp
qed

text \<open>
  C10. The \<open>pages\<close> entry of a successful result is the number of pages PyPDF2
  counted before processing. The document written has as many pages as there are
  images (under the conditions of C1), so the entry differs from the number of pages
  written exactly when the rasterizer delivered a different number of images than the
  reader counted pages.
\<close>

theorem summary_pages_is_reader_count:
  assumes "snd (process_single_pdf env pdf_path opt) = Inr r"
  shows "(\<exists>reader_orig. pypdf_open env pdf_path = Inr reader_orig \<and>
            r_pages r = length reader_orig) \<and>
         (\<forall>images q ps.
            pdf_to_images env pdf_path (dpi opt) (poppler_path opt) = Inr images \<and>
            (\<forall>img \<in> set images. ocr_single_page env opt img \<and> ocr_text_ok env opt img) \<and>
            WrotePdf q ps \<in> set (fst (process_single_pdf env pdf_path opt)) \<longrightarrow>
            (length ps \<noteq> r_pages r \<longleftrightarrow> length images \<noteq> r_pages r))"
  using summary_pages [OF assms] written_pdf_length [of env pdf_path opt] by metis

theorem summary_pages_is_reader_count_witness:
  "snd (process_single_pdf short_env scan (example_opts True False)) =
     Inr (Summary ''in/scan.pdf'' (Some ''in/scan_searchable.pdf'') None 2) \<and>
   pypdf_open short_env scan = Inr [Inr 100, Inr 101] \<and>
   WrotePdf \<lparr>parent = ''in'', name = ''scan_searchable.pdf''\<rparr> [Page 207]
     \<in> set (fst (process_single_pdf short_env scan (example_opts True False))) \<and>
   length [Page (207::nat)] \<noteq> 2"
proof -
  let ?opt = "example_opts True False"
  let ?r = "Summary ''in/scan.pdf'' (Some ''in/scan_searchable.pdf'') None 2"
  have res: "snd (process_single_pdf short_env scan ?opt) = Inr ?r"
    by (simp add: run_defs example_defs)
  have rd: "pypdf_open short_env scan = Inr [Inr 100, Inr 101]"
    by (simp add: run_defs example_defs)
  have images: "pdf_to_images short_env scan (dpi ?opt) (poppler_path ?opt) = Inr [7]"
    by (simp add: run_defs example_defs)
  have ok: "\<forall>img \<in> set [7]. ocr_single_page short_env ?opt img \<and> ocr_text_ok short_env ?opt img"
    by (simp add: run_defs example_defs)
  have wrote: "WrotePdf \<lparr>parent = ''in'', name = ''scan_searchable.pdf''\<rparr> [Page 207]
     \<in> set (fst (process_single_pdf short_env scan ?opt))"
    by (simp add: run_defs example_defs)
  from summary_pages_is_reader_count [OF res] rd images ok wrote res show ?thesis
    by simp
qed

section \<open>Pages with text\<close>

lemma no_ocr_for_copied_page:
  assumes "skip_if_text opt" and "pdf_page_has_text env p (int i) = Inr True"
    and "pypdf_open env p = Inr rd" and "i < length rd" and "rd ! i = Inr pg"
    and "ev = OcrPdf i \<or> ev = OcrText i"
  shows "ev \<notin> set (fst (process_single_pdf env p opt))"
proof (cases rule: process_single_pdf_cases [of env p opt])
  case (early e)
  with assms(6) show ?thesis by auto
next
  case (late rd' images w)
  with assms(3) have [simp]: "rd' = rd" by simp
  have "ev \<notin> set w"
    using late(4) assms(6) by fastforce
  moreover have "ev \<notin> set (trace (assemble env p opt rd images))"
  proof
    assume "ev \<in> set (trace (assemble env p opt rd images))"
    from assemble_trace_pages [OF this] assms(6)
    obtain j where j: "j < length images" "ev \<in> set (trace (page_effect env p rd opt (j, images ! j)))"
      by auto
    with page_effect_events [of env p rd opt j "images ! j"] have "touches j ev" by blast
    with assms(6) have "j = i" by auto
    with j page_effect_copied [OF assms(1,2,4,5), of "images ! i"] assms(6) show False
      by auto
  qed
  ultimately show ?thesis using late(3) by simp
qed

lemma copied_page_is_written:
  assumes "skip_if_text opt" and "pdf_page_has_text env p (int i) = Inr True"
    and "pypdf_open env p = Inr rd" and "i < length rd" and "rd ! i = Inr pg"
    and "pdf_to_images env p (dpi opt) (poppler_path opt) = Inr images" and "i < length images"
    and "WrotePdf q ps \<in> set (fst (process_single_pdf env p opt))"
  shows "Page pg \<in> set ps"
proof -
  from assms(8) obtain rd' images' where "pypdf_open env p = Inr rd'"
    "pdf_to_images env p (dpi opt) (poppler_path opt) = Inr images'"
    "ps = writer (assemble env p opt rd' images')"
    by (rule written_pdf_is_assembled)
  with assms(3,6) have ps: "ps = writer (assemble env p opt rd images)" by simp
  from page_effect_copied [OF assms(1,2,4,5), of "images ! i"]
    assemble_writer_has_page [OF assms(7), of env p rd opt]
  show ?thesis unfolding ps by auto
qed

text \<open>
  C2, as amended. With \<open>skip_if_text\<close>, a page that the classifier reports as having
  text and whose original can be copied is appended to the output as the original page,
  unchanged, with one log record and nothing else; its image is not sent to the OCR
  engine in the whole run, and the original page is in the document written.
\<close>

theorem skip_copies_original_page:
  assumes "skip_if_text opt" and "pdf_page_has_text env pdf_path (int page_idx) = Inr True"
    and "pypdf_open env pdf_path = Inr reader_orig"
    and "page_idx < length reader_orig" and "reader_orig ! page_idx = Inr pg"
  shows "(\<forall>img s. writer (process_page env pdf_path reader_orig opt page_idx img s)
                     = writer s @ [Page pg] \<and>
                   trace (process_page env pdf_path reader_orig opt page_idx img s)
                     = trace s @ [Log INFO (MsgSkipPage (page_idx + 1))]) \<and>
         OcrPdf page_idx \<notin> set (fst (process_single_pdf env pdf_path opt)) \<and>
         OcrText page_idx \<notin> set (fst (process_single_pdf env pdf_path opt)) \<and>
         (\<forall>images q ps.
            pdf_to_images env pdf_path (dpi opt) (poppler_path opt) = Inr images \<and>
            page_idx < length images \<and>
            WrotePdf q ps \<in> set (fst (process_single_pdf env pdf_path opt)) \<longrightarrow>
            Page pg \<in> set ps)"
  using process_page_copied [OF assms(1,2,4,5)] no_ocr_for_copied_page [OF assms]
    copied_page_is_written [OF assms]
  by blast

theorem skip_copies_original_page_witness:
  "pdf_page_has_text threshold_env scan 0 = Inr True \<and>
   OcrPdf 0 \<notin> set (fst (process_single_pdf threshold_env scan (example_opts True False))) \<and>
   OcrText 0 \<notin> set (fst (process_single_pdf threshold_env scan (example_opts True False))) \<and>
   Page 100 \<in> set [Page 100, Page 208] \<and>
   process_single_pdf threshold_env scan (example_opts True False) =
     ([Log INFO (MsgProcessing scan 300 ''eng''), Log INFO (MsgSkipPage 1), OcrPdf 1,
       WrotePdf \<lparr>parent = ''in'', name = ''scan_searchable.pdf''\<rparr> [Page 100, Page 208],
       Log INFO (MsgWrotePdf \<lparr>parent = ''in'', name = ''scan_searchable.pdf''\<rparr>)],
      Inr (Summary ''in/scan.pdf'' (Some ''in/scan_searchable.pdf'') None 2))"
proof -
  let ?opt = "example_opts True False"
  have skip: "skip_if_text ?opt" by (simp add: run_defs example_defs)
  have cls: "pdf_page_has_text threshold_env scan (int 0) = Inr True" by (simp add: run_defs example_defs)
  have rd: "pypdf_open threshold_env scan = Inr [Inr 100, Inr 101]" by (simp add: run_defs example_defs)
  have lt: "0 < length [Inr 100, Inr 101 :: exn + nat]" by simp
  have pg: "[Inr 100, Inr 101 :: exn + nat] ! 0 = Inr 100" by simp
  have images: "pdf_to_images threshold_env scan (dpi ?opt) (poppler_path ?opt) = Inr [7, 8]"
    by (simp add: run_defs example_defs)
  have run: "process_single_pdf threshold_env scan ?opt =
     ([Log INFO (MsgProcessing scan 300 ''eng''), Log INFO (MsgSkipPage 1), OcrPdf 1,
       WrotePdf \<lparr>parent = ''in'', name = ''scan_searchable.pdf''\<rparr> [Page 100, Page 208],
       Log INFO (MsgWrotePdf \<lparr>parent = ''in'', name = ''scan_searchable.pdf''\<rparr>)],
      Inr (Summary ''in/scan.pdf'' (Some ''in/scan_searchable.pdf'') None 2))"
    by (simp add: run_defs example_defs)
  from skip_copies_original_page [OF skip cls rd lt pg] images cls run show ?thesis
    by simp
qed

theorem skip_copy_counterexample:
  "skip_if_text (example_opts True False) \<and>
   pdf_page_has_text copy_fail_env scan 0 = Inr True \<and>
   process_single_pdf copy_fail_env scan (example_opts True False) =
     ([Log INFO (MsgProcessing scan 300 ''eng''), Log INFO (MsgSkipPage 1),
       Log WARNING (MsgCopyFailed 1 (LibraryError ''PdfReadError'')), OcrPdf 0,
       WrotePdf \<lparr>parent = ''in'', name = ''scan_searchable.pdf''\<rparr> [Page 207],
       Log INFO (MsgWrotePdf \<lparr>parent = ''in'', name = ''scan_searchable.pdf''\<rparr>)],
      Inr (Summary ''in/scan.pdf'' (Some ''in/scan_searchable.pdf'') None 1))"
  by (simp add: run_defs example_defs)

section \<open>The fallback from copying to OCR\<close>

lemma page_try_copy_failed:
  assumes "skip_if_text opt" and "pdf_page_has_text env p (int i) = Inr True"
    and "add_original rd i (writer s) = (w, Some e)"
  shows "page_try env p rd opt i img s =
           ocr_page env opt i img
             (s\<lparr>trace := trace s @ [Log INFO (MsgSkipPage (i + 1)),
                                      Log WARNING (MsgCopyFailed (i + 1) e)]\<rparr>)"
proof -
  let ?s0 = "emit (Log INFO (MsgSkipPage (i + 1))) s"
  from assms(3) have "add_original rd i (writer ?s0) = (w, Some e)" by simp
  then have "copy_page env p rd opt i ?s0 = (Some e, ?s0)" by (rule copy_page_failed)
  with assms(1,2) show ?thesis by (simp add: page_try_def emit_def)
qed

lemma process_page_trace_mono:
  "page_try env p rd opt i img s = (r, s1) \<Longrightarrow>
     set (trace s1) \<subseteq> set (trace (process_page env p rd opt i img s))"
  by (cases r) (auto simp: process_page_of_try)

lemma process_page_writer_of_try:
  assumes "page_try env p rd opt i img s = (r, s1)"
  shows "\<exists>rest. writer (process_page env p rd opt i img s) = writer s1 @ rest"
proof (cases r)
  case None
  with assms show ?thesis by (simp add: process_page_of_try)
next
  case (Some e)
  with assms show ?thesis
    by (cases rule: add_original_cases [of i rd]) (auto simp: process_page_def Let_def)
qed

lemma ocr_page_appends_page:
  assumes "ocr_image_to_pdf_bytes env img (lang opt) (tesseract_config opt) = Inr b"
    and "pypdf_read_bytes env b = Inr [Inr q]"
    and "ocr_page env opt i img s = (r, s1)"
  shows "writer s1 = writer s @ [Page q]"
  using assms
  by (auto simp: ocr_page_def merge_pdf_bytes_into_writer_def Let_def split: sum.splits if_splits)

lemma ocr_page_single_length:
  assumes "ocr_single_page env opt img" and "ocr_page env opt i img s = (r, s1)"
  shows "length (writer s) \<le> length (writer s1) \<and>
         (r = None \<longrightarrow> length (writer s) < length (writer s1))"
proof (cases "ocr_image_to_pdf_bytes env img (lang opt) (tesseract_config opt)")
  case (Inl e)
  with assms(2) show ?thesis by (auto simp: ocr_page_def)
next
  case (Inr b)
  show ?thesis
  proof (cases "pypdf_read_bytes env b")
    case (Inl e)
    with Inr assms(2) show ?thesis by (auto simp: ocr_page_def merge_pdf_bytes_into_writer_def)
  next
    case ps: (Inr ps)
    with Inr assms(1) have "length ps = 1" by (simp add: ocr_single_page_def)
    from add_pages_single [OF this, of "writer s"] Inr ps assms(2) show ?thesis
      by (auto simp: ocr_page_def merge_pdf_bytes_into_writer_def Let_def
          split: sum.splits if_splits)
  qed
qed

lemma process_page_single_grows:
  assumes "ocr_single_page env opt img" and "page_try env p rd opt i img s = ocr_page env opt i img s0"
    and "writer s0 = writer s"
  shows "length (writer s) < length (writer (process_page env p rd opt i img s))"
proof -
  obtain r s1 where o: "ocr_page env opt i img s0 = (r, s1)"
    by (cases "ocr_page env opt i img s0")
  from ocr_page_single_length [OF assms(1) o] assms(3)
  have le: "length (writer s) \<le> length (writer s1)"
    "r = None \<longrightarrow> length (writer s) < length (writer s1)" by simp_all
  from o assms(2) have t: "page_try env p rd opt i img s = (r, s1)" by simp
  show ?thesis
  proof (cases r)
    case None
    with t le show ?thesis by (simp add: process_page_of_try)
  next
    case (Some e)
    with t le show ?thesis by (simp add: process_page_of_try)
  qed
qed

lemma process_single_pdf_abort:
  assumes "mkdir env (case out_dir opt of None \<Rightarrow> parent p | Some d \<Rightarrow> d) = Inr u"
    and "pypdf_open env p = Inr rd"
    and "pdf_to_images env p (dpi opt) (poppler_path opt) = Inr images"
    and "snd (process_single_pdf env p opt) = Inl e'"
  shows "\<exists>q. write_pdf_file env q = Inl e' \<or> write_txt_file env q = Inl e'"
  using assms
  by (auto simp: process_single_pdf_def Let_def write_pdf_step_def write_txt_step_def
      split: sum.splits if_splits)

lemma page_effect_min_length:
  fixes env :: "('img, 'pg, 'bytes) env"
  assumes "ocr_single_page env opt img"
  shows "writer (page_effect env p rd opt (i, img)) \<noteq> []"
proof -
  define e0 :: "'pg pstate" where "e0 = \<lparr>writer = [], all_text = [], trace = []\<rparr>"
  have "length (writer e0) < length (writer (process_page env p rd opt i img e0))"
  proof (cases "skip_if_text opt \<and> pdf_page_has_text env p (int i) = Inr True")
    case False
    obtain b where "pdf_page_has_text env p (int i) = Inr b"
      using pdf_page_has_text_total by blast
    with False have "page_try env p rd opt i img e0 = ocr_page env opt i img e0"
      by (cases b) (auto simp: page_try_def)
    with assms show ?thesis by (rule process_page_single_grows) simp
  next
    case True
    show ?thesis
    proof (cases rule: add_original_cases [of i rd])
      case (copied pg)
      with True process_page_copied [of opt env p i rd pg img e0] show ?thesis by simp
    next
      case (failed e)
      with True have "page_try env p rd opt i img e0 =
          ocr_page env opt i img
            (e0\<lparr>trace := trace e0 @ [Log INFO (MsgSkipPage (i + 1)),
                                      Log WARNING (MsgCopyFailed (i + 1) e)]\<rparr>)"
        by (intro page_try_copy_failed) simp_all
      with assms show ?thesis by (rule process_page_single_grows) simp
    qed
  qed
  then show ?thesis by (auto simp: page_effect_def e0_def)
qed

lemma length_concat_at_least:
  "(\<forall>x \<in> set xs. f x \<noteq> []) \<Longrightarrow> length xs \<le> length (concat (map f xs))"
proof (induction xs)
  case Nil
  then show ?case by simp
next
  case (Cons x xs)
  from Cons.prems have "Suc 0 \<le> length (f x)" by (cases "f x") simp_all
  moreover from Cons have "length xs \<le> length (concat (map f xs))" by simp
  ultimately have "Suc (length xs) \<le> length (f x) + length (concat (map f xs))"
    by linarith
  then show ?case by simp
qed

lemma assemble_min_length:
  assumes "\<forall>img \<in> set images. ocr_single_page env opt img"
  shows "length images \<le> length (writer (assemble env p opt rd images))"
proof -
  have "\<forall>x \<in> set (enumerate_from0 images). writer (page_effect env p rd opt x) \<noteq> []"
  proof
    fix x assume "x \<in> set (enumerate_from0 images)"
    then obtain i where "x = (i, images ! i)" "i < length images"
      by (auto simp: enumerate_from0_map)
    with assms show "writer (page_effect env p rd opt x) \<noteq> []"
      by (simp add: page_effect_min_length)
  qed
  then have "length (enumerate_from0 images) \<le> length (writer (assemble env p opt rd images))"
    unfolding assemble_effect by (rule length_concat_at_least)
  then show ?thesis by (simp add: enumerate_from0_def)
qed

text \<open>
  C4. On the skip path, when copying the original page raises, the iteration goes on
  with the OCR statements on the page's image, after a log record and a warning: the
  image is given to OCR; when OCR gives a document of one page, that page is what the
  iteration appends first; and the iteration ends with the writer longer than before,
  given that OCR documents have one page. For the run of \<open>process_single_pdf\<close> on the
  document this means: the OCR call for that page is in the trace of the run; the run
  is not aborted, the only exceptions that leave it being those of the two writing
  steps; the OCR page is in the document written; and the document written has at
  least as many pages as there are images, so none is missing.
\<close>

theorem copy_failure_falls_back_to_ocr:
  assumes "skip_if_text opt" and "pdf_page_has_text env pdf_path (int page_idx) = Inr True"
    and "add_original reader_orig page_idx (writer s) = (w, Some e)"
  shows "page_try env pdf_path reader_orig opt page_idx img s =
           ocr_page env opt page_idx img
             (s\<lparr>trace := trace s @ [Log INFO (MsgSkipPage (page_idx + 1)),
                                      Log WARNING (MsgCopyFailed (page_idx + 1) e)]\<rparr>) \<and>
         OcrPdf page_idx \<in> set (trace (process_page env pdf_path reader_orig opt page_idx img s)) \<and>
         (\<forall>b q. ocr_image_to_pdf_bytes env img (lang opt) (tesseract_config opt) = Inr b \<and>
                 pypdf_read_bytes env b = Inr [Inr q] \<longrightarrow>
            (\<exists>rest. writer (process_page env pdf_path reader_orig opt page_idx img s)
                       = writer s @ Page q # rest)) \<and>
         (ocr_single_page env opt img \<longrightarrow>
            length (writer s)
              < length (writer (process_page env pdf_path reader_orig opt page_idx img s))) \<and>
         (\<forall>images u.
            mkdir env (case out_dir opt of None \<Rightarrow> parent pdf_path | Some d \<Rightarrow> d) = Inr u \<and>
            pypdf_open env pdf_path = Inr reader_orig \<and>
            pdf_to_images env pdf_path (dpi opt) (poppler_path opt) = Inr images \<and>
            page_idx < length images \<longrightarrow>
            OcrPdf page_idx \<in> set (fst (process_single_pdf env pdf_path opt)) \<and>
            Log WARNING (MsgCopyFailed (page_idx + 1) e)
              \<in> set (fst (process_single_pdf env pdf_path opt)) \<and>
            (\<forall>e'. snd (process_single_pdf env pdf_path opt) = Inl e' \<longrightarrow>
                  (\<exists>q. write_pdf_file env q = Inl e' \<or> write_txt_file env q = Inl e')) \<and>
            (output_pdf opt \<and> (\<forall>q. write_pdf_file env q = Inr ()) \<longrightarrow>
               (\<exists>q ps. WrotePdf q ps \<in> set (fst (process_single_pdf env pdf_path opt)))) \<and>
            (\<forall>b pg q ps.
               ocr_image_to_pdf_bytes env (images ! page_idx) (lang opt) (tesseract_config opt)
                 = Inr b \<and>
               pypdf_read_bytes env b = Inr [Inr pg] \<and>
               WrotePdf q ps \<in> set (fst (process_single_pdf env pdf_path opt)) \<longrightarrow>
               Page pg \<in> set ps) \<and>
            ((\<forall>img' \<in> set images. ocr_single_page env opt img') \<longrightarrow>
               (\<forall>q ps. WrotePdf q ps \<in> set (fst (process_single_pdf env pdf_path opt)) \<longrightarrow>
                  length images \<le> length ps)))"
proof -
  have fails: "add_original reader_orig page_idx (writer s') = (writer s', Some e)" for s' :: "'b pstate"
    using assms(3)
    by (cases rule: add_original_cases [of page_idx reader_orig]) simp_all
  have iteration:
    "page_try env pdf_path reader_orig opt page_idx img' s' =
       ocr_page env opt page_idx img'
         (s'\<lparr>trace := trace s' @ [Log INFO (MsgSkipPage (page_idx + 1)),
                                  Log WARNING (MsgCopyFailed (page_idx + 1) e)]\<rparr>) \<and>
     OcrPdf page_idx \<in> set (trace (process_page env pdf_path reader_orig opt page_idx img' s')) \<and>
     Log WARNING (MsgCopyFailed (page_idx + 1) e)
       \<in> set (trace (process_page env pdf_path reader_orig opt page_idx img' s')) \<and>
     (\<forall>b q. ocr_image_to_pdf_bytes env img' (lang opt) (tesseract_config opt) = Inr b \<and>
             pypdf_read_bytes env b = Inr [Inr q] \<longrightarrow>
        (\<exists>rest. writer (process_page env pdf_path reader_orig opt page_idx img' s')
                   = writer s' @ Page q # rest)) \<and>
     (ocr_single_page env opt img' \<longrightarrow>
        length (writer s')
          < length (writer (process_page env pdf_path reader_orig opt page_idx img' s')))"
    for img' and s' :: "'b pstate"
  proof -
    let ?s0 = "s'\<lparr>trace := trace s' @ [Log INFO (MsgSkipPage (page_idx + 1)),
                                      Log WARNING (MsgCopyFailed (page_idx + 1) e)]\<rparr>"
    have t: "page_try env pdf_path reader_orig opt page_idx img' s'
               = ocr_page env opt page_idx img' ?s0"
      using assms(1,2) fails by (rule page_try_copy_failed)
    obtain r s1 where o: "ocr_page env opt page_idx img' ?s0 = (r, s1)"
      by (cases "ocr_page env opt page_idx img' ?s0")
    with t have t': "page_try env pdf_path reader_orig opt page_idx img' s' = (r, s1)" by simp
    have "OcrPdf page_idx \<in> set (trace s1)"
      "Log WARNING (MsgCopyFailed (page_idx + 1) e) \<in> set (trace s1)"
      using ocr_page_sets [OF o] by auto
    with process_page_trace_mono [OF t']
    have called: "OcrPdf page_idx
        \<in> set (trace (process_page env pdf_path reader_orig opt page_idx img' s'))"
      "Log WARNING (MsgCopyFailed (page_idx + 1) e)
        \<in> set (trace (process_page env pdf_path reader_orig opt page_idx img' s'))"
      by blast+
    have appended: "\<exists>rest. writer (process_page env pdf_path reader_orig opt page_idx img' s')
                         = writer s' @ Page q # rest"
      if "ocr_image_to_pdf_bytes env img' (lang opt) (tesseract_config opt) = Inr b"
        and "pypdf_read_bytes env b = Inr [Inr q]" for b q
    proof -
      from ocr_page_appends_page [OF that o] have "writer s1 = writer s' @ [Page q]" by simp
      with process_page_writer_of_try [OF t'] show ?thesis by auto
    qed
    have grows: "length (writer s')
        < length (writer (process_page env pdf_path reader_orig opt page_idx img' s'))"
      if "ocr_single_page env opt img'"
      using that t by (rule process_page_single_grows) simp
    from t called appended grows show ?thesis by blast
  qed
  have document:
    "OcrPdf page_idx \<in> set (fst (process_single_pdf env pdf_path opt)) \<and>
     Log WARNING (MsgCopyFailed (page_idx + 1) e)
       \<in> set (fst (process_single_pdf env pdf_path opt)) \<and>
     (\<forall>e'. snd (process_single_pdf env pdf_path opt) = Inl e' \<longrightarrow>
           (\<exists>q. write_pdf_file env q = Inl e' \<or> write_txt_file env q = Inl e')) \<and>
     (output_pdf opt \<and> (\<forall>q. write_pdf_file env q = Inr ()) \<longrightarrow>
        (\<exists>q ps. WrotePdf q ps \<in> set (fst (process_single_pdf env pdf_path opt)))) \<and>
     (\<forall>b pg q ps.
        ocr_image_to_pdf_bytes env (images ! page_idx) (lang opt) (tesseract_config opt) = Inr b \<and>
        pypdf_read_bytes env b = Inr [Inr pg] \<and>
        WrotePdf q ps \<in> set (fst (process_single_pdf env pdf_path opt)) \<longrightarrow>
        Page pg \<in> set ps) \<and>
     ((\<forall>img' \<in> set images. ocr_single_page env opt img') \<longrightarrow>
        (\<forall>q ps. WrotePdf q ps \<in> set (fst (process_single_pdf env pdf_path opt)) \<longrightarrow>
           length images \<le> length ps))"
    if mk: "mkdir env (case out_dir opt of None \<Rightarrow> parent pdf_path | Some d \<Rightarrow> d) = Inr u"
      and rd: "pypdf_open env pdf_path = Inr reader_orig"
      and im: "pdf_to_images env pdf_path (dpi opt) (poppler_path opt) = Inr images"
      and lt: "page_idx < length images"
    for images u
  proof -
    let ?S = "assemble env pdf_path opt reader_orig images"
    let ?E = "page_effect env pdf_path reader_orig opt (page_idx, images ! page_idx)"
    let ?e = "\<lparr>writer = [], all_text = [], trace = []\<rparr> :: 'b pstate"
    note it = iteration [of "images ! page_idx" ?e, folded page_effect_def]
    from process_single_pdf_late [OF mk rd im]
    obtain wr where wr: "fst (process_single_pdf env pdf_path opt) = trace ?S @ wr"
      and res: "\<forall>r. snd (process_single_pdf env pdf_path opt) = Inr r \<longrightarrow>
                 (output_pdf opt \<longrightarrow> (\<exists>q. WrotePdf q (writer ?S) \<in> set wr))"
      by blast
    have ev: "OcrPdf page_idx \<in> set (trace ?E)"
      "Log WARNING (MsgCopyFailed (page_idx + 1) e) \<in> set (trace ?E)"
      using it by (simp_all add: page_effect_def)
    with assemble_trace_has_page [OF lt, of env pdf_path reader_orig opt]
    have in_trace: "OcrPdf page_idx \<in> set (fst (process_single_pdf env pdf_path opt))"
      "Log WARNING (MsgCopyFailed (page_idx + 1) e)
         \<in> set (fst (process_single_pdf env pdf_path opt))"
      unfolding wr by auto
    have abort: "\<exists>q. write_pdf_file env q = Inl e' \<or> write_txt_file env q = Inl e'"
      if "snd (process_single_pdf env pdf_path opt) = Inl e'" for e'
      using mk rd im that by (rule process_single_pdf_abort)
    have written: "\<exists>q ps. WrotePdf q ps \<in> set (fst (process_single_pdf env pdf_path opt))"
      if "output_pdf opt" and ok: "\<forall>q. write_pdf_file env q = Inr ()"
      using that mk rd im
      by (auto simp: process_single_pdf_def Let_def write_pdf_step_def write_txt_step_def
          split: sum.splits)
    have ocr_page_written: "Page pg \<in> set ps"
      if "ocr_image_to_pdf_bytes env (images ! page_idx) (lang opt) (tesseract_config opt) = Inr b"
        and "pypdf_read_bytes env b = Inr [Inr pg]"
        and "WrotePdf q ps \<in> set (fst (process_single_pdf env pdf_path opt))" for b pg q ps
    proof -
      from that(3) obtain rd' images' where "pypdf_open env pdf_path = Inr rd'"
        "pdf_to_images env pdf_path (dpi opt) (poppler_path opt) = Inr images'"
        "ps = writer (assemble env pdf_path opt rd' images')"
        by (rule written_pdf_is_assembled)
      with rd im have ps: "ps = writer ?S" by simp
      from it that(1,2) have "Page pg \<in> set (writer ?E)"
        by (auto simp: page_effect_def)
      with assemble_writer_has_page [OF lt, of env pdf_path reader_orig opt]
      show ?thesis unfolding ps by auto
    qed
    have none_missing: "length images \<le> length ps"
      if "\<forall>img' \<in> set images. ocr_single_page env opt img'"
        and "WrotePdf q ps \<in> set (fst (process_single_pdf env pdf_path opt))" for q ps
    proof -
      from that(2) obtain rd' images' where "pypdf_open env pdf_path = Inr rd'"
        "pdf_to_images env pdf_path (dpi opt) (poppler_path opt) = Inr images'"
        "ps = writer (assemble env pdf_path opt rd' images')"
        by (rule written_pdf_is_assembled)
      with rd im have "ps = writer ?S" by simp
      with that(1) show ?thesis by (simp add: assemble_min_length)
    qed
    from in_trace abort written ocr_page_written none_missing show ?thesis by blast
  qed
  from iteration [of img s] document show ?thesis by blast
qed

theorem copy_failure_falls_back_to_ocr_witness:
  "process_page copy_fail_env scan [Inl (LibraryError ''PdfReadError'')] (example_opts True False) 0 7
     \<lparr>writer = [], all_text = [], trace = []\<rparr> =
   \<lparr>writer = [Page 207], all_text = [],
    trace = [Log INFO (MsgSkipPage 1),
             Log WARNING (MsgCopyFailed 1 (LibraryError ''PdfReadError'')), OcrPdf 0]\<rparr> \<and>
   OcrPdf 0 \<in> set (fst (process_single_pdf copy_fail_env scan (example_opts True False))) \<and>
   Log WARNING (MsgCopyFailed (0 + 1) (LibraryError ''PdfReadError''))
     \<in> set (fst (process_single_pdf copy_fail_env scan (example_opts True False))) \<and>
   process_single_pdf copy_fail_env scan (example_opts True False) =
     ([Log INFO (MsgProcessing scan 300 ''eng''), Log INFO (MsgSkipPage 1),
       Log WARNING (MsgCopyFailed 1 (LibraryError ''PdfReadError'')), OcrPdf 0,
       WrotePdf \<lparr>parent = ''in'', name = ''scan_searchable.pdf''\<rparr> [Page 207],
       Log INFO (MsgWrotePdf \<lparr>parent = ''in'', name = ''scan_searchable.pdf''\<rparr>)],
      Inr (Summary ''in/scan.pdf'' (Some ''in/scan_searchable.pdf'') None 1)) \<and>
   (\<exists>q ps. WrotePdf q ps
      \<in> set (fst (process_single_pdf copy_fail_env scan (example_opts True False)))) \<and>
   Page 207 \<in> set [Page (207::nat)] \<and> length [7::nat] \<le> length [Page (207::nat)]"
proof -
  let ?opt = "example_opts True False"
  let ?rd = "[Inl (LibraryError ''PdfReadError'')] :: (exn + nat) list"
  let ?s = "\<lparr>writer = [], all_text = [], trace = []\<rparr> :: nat pstate"
  let ?out = "\<lparr>parent = ''in'', name = ''scan_searchable.pdf''\<rparr>"
  have skip: "skip_if_text ?opt"
    by (simp add: example_opts_def)
  have cls: "pdf_page_has_text copy_fail_env scan (int 0) = Inr True"
    by (simp add: run_defs example_defs)
  have copy: "add_original ?rd 0 (writer ?s) = ([], Some (LibraryError ''PdfReadError''))"
    by (simp add: add_original_def)
  have mk: "mkdir copy_fail_env (case out_dir ?opt of None \<Rightarrow> parent scan | Some d \<Rightarrow> d) = Inr ()"
    by (simp add: run_defs example_defs)
  have rd: "pypdf_open copy_fail_env scan = Inr ?rd"
    by (simp add: run_defs example_defs)
  have images: "pdf_to_images copy_fail_env scan (dpi ?opt) (poppler_path ?opt) = Inr [7]"
    by (simp add: run_defs example_defs)
  have lt: "0 < length [7::nat]" by simp
  have ocr: "ocr_image_to_pdf_bytes copy_fail_env ([7] ! 0) (lang ?opt) (tesseract_config ?opt)
               = Inr 207"
    by (simp add: run_defs example_defs)
  have parse: "pypdf_read_bytes copy_fail_env 207 = Inr [Inr 207]"
    by (simp add: run_defs example_defs)
  have single: "\<forall>img' \<in> set [7]. ocr_single_page copy_fail_env ?opt img'"
    by (simp add: run_defs example_defs)
  have can_write: "output_pdf ?opt \<and> (\<forall>q. write_pdf_file copy_fail_env q = Inr ())"
    by (simp add: run_defs example_defs)
  have page: "process_page copy_fail_env scan ?rd ?opt 0 7 ?s =
     \<lparr>writer = [Page 207], all_text = [],
      trace = [Log INFO (MsgSkipPage 1),
               Log WARNING (MsgCopyFailed 1 (LibraryError ''PdfReadError'')), OcrPdf 0]\<rparr>"
    by (simp add: run_defs example_defs)
  have run: "process_single_pdf copy_fail_env scan ?opt =
     ([Log INFO (MsgProcessing scan 300 ''eng''), Log INFO (MsgSkipPage 1),
       Log WARNING (MsgCopyFailed 1 (LibraryError ''PdfReadError'')), OcrPdf 0,
       WrotePdf ?out [Page 207], Log INFO (MsgWrotePdf ?out)],
      Inr (Summary ''in/scan.pdf'' (Some ''in/scan_searchable.pdf'') None 1))"
    by (simp add: run_defs example_defs)
  have wrote: "WrotePdf ?out [Page 207] \<in> set (fst (process_single_pdf copy_fail_env scan ?opt))"
    by (simp add: run)
  note doc = copy_failure_falls_back_to_ocr [OF skip cls copy, of 7, THEN conjunct2, THEN conjunct2,
      THEN conjunct2, THEN conjunct2, rule_format, OF conjI [OF mk conjI [OF rd conjI [OF images lt]]]]
  from doc have "OcrPdf 0 \<in> set (fst (process_single_pdf copy_fail_env scan ?opt))"
    and "Log WARNING (MsgCopyFailed (0 + 1) (LibraryError ''PdfReadError''))
           \<in> set (fst (process_single_pdf copy_fail_env scan ?opt))"
    by blast+
  moreover from doc can_write
  have "\<exists>q ps. WrotePdf q ps \<in> set (fst (process_single_pdf copy_fail_env scan ?opt))"
    by blast
  moreover from doc ocr parse wrote have "Page 207 \<in> set [Page (207::nat)]"
    by blast
  moreover from doc single wrote have "length [7::nat] \<le> length [Page (207::nat)]"
    by blast
  ultimately show ?thesis using page run by blast
qed

section \<open>Which pages the loop processes\<close>

lemma process_page_beyond_reader:
  assumes "\<not> i < length rd"
  shows "OcrPdf i \<in> set (trace (process_page env p rd opt i img s))"
proof -
  obtain r s1 where t: "page_try env p rd opt i img s = (r, s1)"
    by (cases "page_try env p rd opt i img s")
  have "OcrPdf i \<in> set (trace s1)"
  proof (cases "skip_if_text opt \<and> pdf_page_has_text env p (int i) = Inr True")
    case False
    obtain b where "pdf_page_has_text env p (int i) = Inr b"
      using pdf_page_has_text_total by blast
    with False have "page_try env p rd opt i img s = ocr_page env opt i img s"
      by (cases b) (auto simp: page_try_def)
    with t ocr_page_sets [of env opt i img s r s1] show ?thesis by simp
  next
    case True
    from assms have "add_original rd i (writer s) =
        (writer s, Some (LibraryError ''sequence index out of range''))"
      by (simp add: add_original_def)
    with True have "page_try env p rd opt i img s =
        ocr_page env opt i img
          (s\<lparr>trace := trace s @ [Log INFO (MsgSkipPage (i + 1)),
                Log WARNING (MsgCopyFailed (i + 1)
                  (LibraryError ''sequence index out of range''))]\<rparr>)"
      by (intro page_try_copy_failed) simp_all
    with t ocr_page_sets [of env opt i img _ r s1] show ?thesis by simp
  qed
  with process_page_trace_mono [OF t] show ?thesis by blast
qed

lemma page_marker_iff:
  assumes "pypdf_open env p = Inr rd"
    and "pdf_to_images env p (dpi opt) (poppler_path opt) = Inr images"
    and "mkdir env (case out_dir opt of None \<Rightarrow> parent p | Some d \<Rightarrow> d) = Inr u"
  shows "(OcrPdf i \<in> set (fst (process_single_pdf env p opt)) \<or>
          Log INFO (MsgSkipPage (i + 1)) \<in> set (fst (process_single_pdf env p opt)))
         \<longleftrightarrow> i < length images"
proof -
  let ?S = "assemble env p opt rd images"
  from process_single_pdf_late [OF assms(3,1,2)]
  obtain w where w: "fst (process_single_pdf env p opt) = trace ?S @ w"
    "\<forall>ev \<in> set w. write_event (writer ?S) (combined_text (all_text ?S)) ev"
    by blast
  show ?thesis
  proof
    assume "i < length images"
    with page_effect_events [of env p rd opt i "images ! i"] assemble_trace_has_page [of i images env p rd opt]
    show "OcrPdf i \<in> set (fst (process_single_pdf env p opt)) \<or>
          Log INFO (MsgSkipPage (i + 1)) \<in> set (fst (process_single_pdf env p opt))"
      unfolding w(1) by auto
  next
    assume "OcrPdf i \<in> set (fst (process_single_pdf env p opt)) \<or>
          Log INFO (MsgSkipPage (i + 1)) \<in> set (fst (process_single_pdf env p opt))"
    then obtain ev where ev: "ev = OcrPdf i \<or> ev = Log INFO (MsgSkipPage (i + 1))"
      "ev \<in> set (trace ?S @ w)"
      unfolding w(1) by blast
    from ev(1) w(2) have "ev \<notin> set w" by fastforce
    with ev(2) have "ev \<in> set (trace ?S)" by simp
    from assemble_trace_pages [OF this] ev(1)
    obtain j where j: "j < length images" "ev \<in> set (trace (page_effect env p rd opt (j, images ! j)))"
      by auto
    with page_effect_events [of env p rd opt j "images ! j"] have "touches j ev" by blast
    with ev(1) have "j = i" by auto
    with j show "i < length images" by simp
  qed
qed

lemma extra_images_are_ocred:
  assumes "pypdf_open env p = Inr rd"
    and "pdf_to_images env p (dpi opt) (poppler_path opt) = Inr images"
    and "mkdir env (case out_dir opt of None \<Rightarrow> parent p | Some d \<Rightarrow> d) = Inr u"
    and "length rd \<le> i" and "i < length images"
  shows "OcrPdf i \<in> set (fst (process_single_pdf env p opt))"
proof -
  from process_single_pdf_late [OF assms(3,1,2)]
  obtain w where w: "fst (process_single_pdf env p opt) = trace (assemble env p opt rd images) @ w"
    by blast
  from assms(4) have "OcrPdf i \<in> set (trace (page_effect env p rd opt (i, images ! i)))"
    by (simp add: page_effect_def process_page_beyond_reader)
  with assemble_trace_has_page [OF assms(5), of env p rd opt] show ?thesis
    unfolding w by auto
qed

lemma mismatch_is_warned:
  assumes "pypdf_open env p = Inr rd"
    and "pdf_to_images env p (dpi opt) (poppler_path opt) = Inr images"
    and "mkdir env (case out_dir opt of None \<Rightarrow> parent p | Some d \<Rightarrow> d) = Inr u"
  shows "Log WARNING (MsgImageCount (length images) (length rd))
           \<in> set (fst (process_single_pdf env p opt)) \<longleftrightarrow> length images \<noteq> length rd"
proof -
  let ?S = "assemble env p opt rd images"
  let ?ev = "Log WARNING (MsgImageCount (length images) (length rd))"
  from process_single_pdf_late [OF assms(3,1,2)]
  obtain w where w: "fst (process_single_pdf env p opt) = trace ?S @ w"
    "\<forall>ev \<in> set w. write_event (writer ?S) (combined_text (all_text ?S)) ev"
    by blast
  from w(2) have nw: "?ev \<notin> set w" by fastforce
  have np: "?ev \<notin> set (trace (page_effect env p rd opt x))" for x
    using page_effect_events [of env p rd opt "fst x" "snd x"] by fastforce
  show ?thesis
    unfolding w(1) using nw np by (auto simp: assemble_effect)
qed

text \<open>
  C8, as amended. When the rasterizer delivers another number of images than the
  reader counts pages, a warning is logged and the run goes on. The page loop then
  processes exactly the indices of the images, \<open>0\<close> up to their number: with fewer
  images than pages these lie within both sequences, and with more images than pages
  the images past the last page are processed too, all of them by OCR.
\<close>

theorem loop_runs_over_images:
  assumes "pypdf_open env pdf_path = Inr reader_orig"
    and "pdf_to_images env pdf_path (dpi opt) (poppler_path opt) = Inr images"
    and "mkdir env (case out_dir opt of None \<Rightarrow> parent pdf_path | Some d \<Rightarrow> d) = Inr u"
  shows "(length images \<noteq> length reader_orig \<longrightarrow>
            Log WARNING (MsgImageCount (length images) (length reader_orig))
              \<in> set (fst (process_single_pdf env pdf_path opt))) \<and>
         (\<forall>i. (OcrPdf i \<in> set (fst (process_single_pdf env pdf_path opt)) \<or>
               Log INFO (MsgSkipPage (i + 1)) \<in> set (fst (process_single_pdf env pdf_path opt)))
              \<longleftrightarrow> i < length images) \<and>
         (\<forall>i. length reader_orig \<le> i \<and> i < length images \<longrightarrow>
              OcrPdf i \<in> set (fst (process_single_pdf env pdf_path opt)))"
  using mismatch_is_warned [OF assms] page_marker_iff [OF assms]
    extra_images_are_ocred [OF assms]
  by blast

theorem loop_runs_over_images_witness:
  "Log WARNING (MsgImageCount 1 2)
     \<in> set (fst (process_single_pdf short_env scan (example_opts False False))) \<and>
   OcrPdf 0 \<in> set (fst (process_single_pdf short_env scan (example_opts False False))) \<and>
   OcrPdf 1 \<notin> set (fst (process_single_pdf short_env scan (example_opts False False)))"
proof -
  let ?opt = "example_opts False False"
  have rd: "pypdf_open short_env scan = Inr [Inr 100, Inr 101]" by (simp add: run_defs example_defs)
  have images: "pdf_to_images short_env scan (dpi ?opt) (poppler_path ?opt) = Inr [7]"
    by (simp add: run_defs example_defs)
  have mk: "mkdir short_env (case out_dir ?opt of None \<Rightarrow> parent scan | Some d \<Rightarrow> d) = Inr ()"
    by (simp add: run_defs example_defs)
  have no_skip: "Log INFO (MsgSkipPage i) \<notin> set (fst (process_single_pdf short_env scan ?opt))"
    for i
    by (simp add: run_defs example_defs)
  from loop_runs_over_images [OF rd images mk] no_skip show ?thesis
    by (auto simp: numeral_2_eq_2)
qed

theorem shorter_sequence_counterexample:
  "pypdf_open long_env scan = Inr [Inr 100] \<and>
   process_single_pdf long_env scan (example_opts True False) =
     ([Log INFO (MsgProcessing scan 300 ''eng''), Log WARNING (MsgImageCount 2 1),
       OcrPdf 0, OcrPdf 1,
       WrotePdf \<lparr>parent = ''in'', name = ''scan_searchable.pdf''\<rparr> [Page 207, Page 208],
       Log INFO (MsgWrotePdf \<lparr>parent = ''in'', name = ''scan_searchable.pdf''\<rparr>)],
      Inr (Summary ''in/scan.pdf'' (Some ''in/scan_searchable.pdf'') None 1))"
  by (simp add: run_defs example_defs)

section \<open>The combined text\<close>

lemma strip_filter_commute:
  assumes "\<forall>t \<in> set texts. t \<noteq> [] \<longrightarrow> strip t \<noteq> []"
  shows "filter (\<lambda>t. t \<noteq> []) (map strip texts) = map strip (filter (\<lambda>t. t \<noteq> []) texts)"
  using assms by (induction texts) (auto simp: strip_Nil)

lemma written_txt_is_combined:
  assumes "WroteTxt q tx \<in> set (fst (process_single_pdf env p opt))"
  obtains rd images where "pypdf_open env p = Inr rd"
    "pdf_to_images env p (dpi opt) (poppler_path opt) = Inr images"
    "tx = combined_text (page_texts env p opt rd images)"
proof (cases rule: process_single_pdf_cases [of env p opt])
  case (early e)
  with assms show ?thesis by auto
next
  case (late rd images w)
  from assms late(3) consider "WroteTxt q tx \<in> set (trace (assemble env p opt rd images))"
    | "WroteTxt q tx \<in> set w" by auto
  then show ?thesis
  proof cases
    case 1
    from assemble_trace_pages [OF 1] page_effect_events [of env p rd opt]
    have False by fastforce
    then show ?thesis ..
  next
    case 2
    with late(4) have "tx = combined_text (all_text (assemble env p opt rd images))" by fastforce
    then have "tx = combined_text (page_texts env p opt rd images)"
      by (simp add: page_texts_def assemble_effect)
    with late(1,2) show ?thesis by (rule that)
  qed
qed

lemma written_txt_exists:
  assumes "output_txt opt" and "snd (process_single_pdf env p opt) = Inr r"
  shows "\<exists>q tx. WroteTxt q tx \<in> set (fst (process_single_pdf env p opt))"
proof (cases rule: process_single_pdf_cases [of env p opt])
  case (early e)
  with assms show ?thesis by simp
next
  case (late rd images w)
  with assms show ?thesis by fastforce
qed

text \<open>
  C5, as amended. The text written for a document is made of the texts the pages
  contributed, in page order: those that are not empty are kept, each is trimmed of
  surrounding white space, and they are joined by the page break. When no page text
  consists of white space only, these are the non-empty trimmed page texts, so that
  the separators stand between non-empty segments only. A successful run that was asked
  for the text has written it.
\<close>

theorem combined_text_of_pages:
  assumes "pypdf_open env pdf_path = Inr reader_orig"
    and "pdf_to_images env pdf_path (dpi opt) (poppler_path opt) = Inr images"
  shows "(\<forall>q tx. WroteTxt q tx \<in> set (fst (process_single_pdf env pdf_path opt)) \<longrightarrow>
            tx = py_join page_break
                   (map strip (filter (\<lambda>t. t \<noteq> [])
                      (page_texts env pdf_path opt reader_orig images))) \<and>
            ((\<forall>t \<in> set (page_texts env pdf_path opt reader_orig images). t \<noteq> [] \<longrightarrow> strip t \<noteq> [])
               \<longrightarrow> tx = spec_combined_text
                          (map strip (page_texts env pdf_path opt reader_orig images)))) \<and>
         (\<forall>r. output_txt opt \<and> snd (process_single_pdf env pdf_path opt) = Inr r \<longrightarrow>
            (\<exists>q tx. WroteTxt q tx \<in> set (fst (process_single_pdf env pdf_path opt))))"
proof -
  have "tx = py_join page_break
               (map strip (filter (\<lambda>t. t \<noteq> []) (page_texts env pdf_path opt reader_orig images)))"
    if "WroteTxt q tx \<in> set (fst (process_single_pdf env pdf_path opt))" for q tx
    using that assms by (elim written_txt_is_combined) (simp add: combined_text_def)
  then show ?thesis
    using written_txt_exists [of opt env pdf_path]
    by (auto simp: spec_combined_text_def strip_filter_commute)
qed

theorem combined_text_of_pages_witness:
  "page_texts abc_env scan (example_opts True True) [Inr 100, Inr 101, Inr 102] [7, 8, 9] =
     [py_str ''A'' @ [10, 12], text21, [32] @ py_str ''C''] \<and>
   WroteTxt \<lparr>parent = ''in'', name = ''scan.txt''\<rparr>
     (py_str ''A'' @ page_break @ py_str ''Invoice 2024-17 total'' @ page_break @ py_str ''C'')
     \<in> set (fst (process_single_pdf abc_env scan (example_opts True True))) \<and>
   py_str ''A'' @ page_break @ py_str ''Invoice 2024-17 total'' @ page_break @ py_str ''C'' =
     spec_combined_text (map strip [py_str ''A'' @ [10, 12], text21, [32] @ py_str ''C''])"
proof -
  let ?opt = "example_opts True True"
  let ?tx = "py_str ''A'' @ page_break @ py_str ''Invoice 2024-17 total'' @ page_break @ py_str ''C''"
  have rd: "pypdf_open abc_env scan = Inr [Inr 100, Inr 101, Inr 102]"
    by (simp add: abc_env_def example_env_def)
  have images: "pdf_to_images abc_env scan (dpi ?opt) (poppler_path ?opt) = Inr [7, 8, 9]"
    by (simp add: run_defs abc_env_def)
  have texts: "page_texts abc_env scan ?opt [Inr 100, Inr 101, Inr 102] [7, 8, 9] =
     [py_str ''A'' @ [10, 12], text21, [32] @ py_str ''C'']"
    by (simp add: run_defs abc_env_def page_texts_def page_effect_def)
  have wrote: "WroteTxt \<lparr>parent = ''in'', name = ''scan.txt''\<rparr> ?tx
     \<in> set (fst (process_single_pdf abc_env scan ?opt))"
    by (simp add: run_defs abc_env_def)
  have visible: "\<forall>t \<in> set [py_str ''A'' @ [10, 12], text21, [32] @ py_str ''C'']. t \<noteq> [] \<longrightarrow> strip t \<noteq> []"
    by (simp add: strip_def is_space_def py_str_def text21_def)
  from combined_text_of_pages [OF rd images] wrote
  have "(\<forall>t \<in> set (page_texts abc_env scan ?opt [Inr 100, Inr 101, Inr 102] [7, 8, 9]).
           t \<noteq> [] \<longrightarrow> strip t \<noteq> []) \<longrightarrow>
        ?tx = spec_combined_text
                (map strip (page_texts abc_env scan ?opt [Inr 100, Inr 101, Inr 102] [7, 8, 9]))"
    by blast
  then have "?tx = spec_combined_text (map strip [py_str ''A'' @ [10, 12], text21, [32] @ py_str ''C''])"
    unfolding texts using visible by (rule mp)
  with texts wrote show ?thesis by (intro conjI)
qed

theorem combined_text_counterexample:
  "page_texts blank_page_env scan (example_opts False True) [Inr 100, Inr 101, Inr 102] [7, 8, 9] =
     [py_str ''A'', [12], py_str ''C''] \<and>
   WroteTxt \<lparr>parent = ''in'', name = ''scan.txt''\<rparr>
     (py_str ''A'' @ page_break @ page_break @ py_str ''C'')
     \<in> set (fst (process_single_pdf blank_page_env scan (example_opts False True))) \<and>
   spec_combined_text [py_str ''A'', [12], py_str ''C''] =
     py_str ''A'' @ page_break @ [12] @ page_break @ py_str ''C'' \<and>
   spec_combined_text (map strip [py_str ''A'', [12], py_str ''C'']) =
     py_str ''A'' @ page_break @ py_str ''C'' \<and>
   py_str ''A'' @ page_break @ page_break @ py_str ''C''
     \<noteq> py_str ''A'' @ page_break @ [12] @ page_break @ py_str ''C'' \<and>
   py_str ''A'' @ page_break @ page_break @ py_str ''C'' \<noteq> py_str ''A'' @ page_break @ py_str ''C''"
proof -
  have "page_texts blank_page_env scan (example_opts False True)
          [Inr 100, Inr 101, Inr 102] [7, 8, 9] = [py_str ''A'', [12], py_str ''C'']"
    by (simp add: run_defs blank_page_env_def page_texts_def page_effect_def)
  moreover have "WroteTxt \<lparr>parent = ''in'', name = ''scan.txt''\<rparr>
     (py_str ''A'' @ page_break @ page_break @ py_str ''C'')
     \<in> set (fst (process_single_pdf blank_page_env scan (example_opts False True)))"
    by (simp add: run_defs blank_page_env_def)
  moreover have "spec_combined_text [py_str ''A'', [12], py_str ''C''] =
       py_str ''A'' @ page_break @ [12] @ page_break @ py_str ''C'' \<and>
     spec_combined_text (map strip [py_str ''A'', [12], py_str ''C'']) =
       py_str ''A'' @ page_break @ py_str ''C'' \<and>
     py_str ''A'' @ page_break @ page_break @ py_str ''C''
       \<noteq> py_str ''A'' @ page_break @ [12] @ page_break @ py_str ''C'' \<and>
     py_str ''A'' @ page_break @ page_break @ py_str ''C'' \<noteq> py_str ''A'' @ page_break @ py_str ''C''"
    by (simp add: spec_combined_text_def strip_def is_space_def py_str_def page_break_def)
  ultimately show ?thesis by (intro conjI) simp_all
qed

section \<open>The batch\<close>

lemma process_files_results:
  "\<exists>t'. process_files env opt files results t =
          (t', results @ map (\<lambda>f. case snd (process_single_pdf env f opt) of
                                      Inr res \<Rightarrow> res
                                    | Inl e \<Rightarrow> Failure (str_of_path f) (str_of_exn e)) files) \<and>
        set t \<subseteq> set t' \<and> (\<forall>f \<in> set files. Called_process_single_pdf f \<in> set t')"
proof (induction files arbitrary: results t)
  case Nil
  then show ?case by simp
next
  case (Cons f files)
  obtain t1 r where p: "process_single_pdf env f opt = (t1, r)"
    by (cases "process_single_pdf env f opt")
  show ?case
  proof (cases r)
    case (Inl e)
    from Cons.IH [of "results @ [Failure (str_of_path f) (str_of_exn e)]"
        "t @ [Called_process_single_pdf f] @ t1 @ [Log ERROR (MsgFailedProcessing f e)]"]
      p Inl
    show ?thesis by auto
  next
    case (Inr res)
    from Cons.IH [of "results @ [res]" "t @ [Called_process_single_pdf f] @ t1"] p Inr
    show ?thesis by auto
  qed
qed

text \<open>
  C6. Once the dependency check and the listing of the input have succeeded, \<open>main\<close>
  returns 0 after printing a result list that has, in the order of the input documents,
  exactly one entry for each: the summary of \<open>process_single_pdf\<close>, or, when
  processing that document raised, an entry with the input and the error text. Every
  document is processed, whatever happened to those before it.
\<close>

theorem batch_one_result_per_document:
  assumes "check_dependencies env (arg_tesseract_cmd a) = Inr ()"
    and "list_input_files env (arg_input a) = Inr files"
    and "\<not> (arg_batch a \<and> \<not> is_dir env (arg_input a))"
  shows "\<exists>t results.
           main env a = (t @ [Printed results], Return 0) \<and>
           length results = length files \<and>
           (\<forall>k < length files.
              results ! k =
                (case snd (process_single_pdf env (files ! k) (opts_of_args a)) of
                   Inr res \<Rightarrow> res
                 | Inl e \<Rightarrow> Failure (str_of_path (files ! k)) (str_of_exn e)) \<and>
              r_input (results ! k) = str_of_path (files ! k) \<and>
              Called_process_single_pdf (files ! k) \<in> set t)"
proof -
  let ?entry = "\<lambda>f. case snd (process_single_pdf env f (opts_of_args a)) of
                       Inr res \<Rightarrow> res
                     | Inl e \<Rightarrow> Failure (str_of_path f) (str_of_exn e)"
  from process_files_results [of env "opts_of_args a" files "[]" "[Called_list_input_files (arg_input a)]"]
  obtain t where t: "process_files env (opts_of_args a) files [] [Called_list_input_files (arg_input a)]
      = (t, map ?entry files)"
    "\<forall>f \<in> set files. Called_process_single_pdf f \<in> set t"
    by auto
  from assms t(1) have m: "main env a = (t @ [Printed (map ?entry files)], Return 0)"
    by (auto simp: main_def Let_def)
  have input: "r_input (?entry f) = str_of_path f" for f
  proof (cases "snd (process_single_pdf env f (opts_of_args a))")
    case (Inl e)
    then show ?thesis by simp
  next
    case (Inr res)
    then show ?thesis
      by (cases rule: process_single_pdf_cases [of env f "opts_of_args a"]) simp_all
  qed
  from m t(2) input show ?thesis
    by (intro exI [of _ t] exI [of _ "map ?entry files"]) simp
qed

lemma batch_files:
  "list_input_files batch_env inbox =
     Inr [\<lparr>parent = ''data/inbox'', name = ''a.pdf''\<rparr>,
          \<lparr>parent = ''data/inbox'', name = ''b.PDF''\<rparr>,
          \<lparr>parent = ''data/inbox'', name = ''c.pdf''\<rparr>]"
  by code_simp

theorem batch_one_result_per_document_witness:
  "\<exists>t results.
     main batch_env (example_args inbox) = (t @ [Printed results], Return 0) \<and>
     length results = 3 \<and>
     results ! 0 = Summary ''data/inbox/a.pdf'' (Some ''data/inbox/a_searchable.pdf'') None 1 \<and>
     results ! 1 = Failure ''data/inbox/b.PDF''
                     ''Failed to convert PDF to images: PDFPageCountError'' \<and>
     results ! 2 = Summary ''data/inbox/c.pdf'' (Some ''data/inbox/c_searchable.pdf'') None 1"
proof -
  let ?a = "example_args inbox"
  let ?fa = "\<lparr>parent = ''data/inbox'', name = ''a.pdf''\<rparr>"
  let ?fb = "\<lparr>parent = ''data/inbox'', name = ''b.PDF''\<rparr>"
  let ?fc = "\<lparr>parent = ''data/inbox'', name = ''c.pdf''\<rparr>"
  have deps: "check_dependencies batch_env (arg_tesseract_cmd ?a) = Inr ()"
    by (simp add: check_dependencies_def batch_env_def example_env_def example_args_def if_truthy_def)
  have files: "list_input_files batch_env (arg_input ?a) = Inr [?fa, ?fb, ?fc]"
    using batch_files by (simp add: example_args_def)
  have dir: "\<not> (arg_batch ?a \<and> \<not> is_dir batch_env (arg_input ?a))"
    by (simp add: example_args_def)
  have ra: "snd (process_single_pdf batch_env ?fa (opts_of_args ?a)) =
      Inr (Summary ''data/inbox/a.pdf'' (Some ''data/inbox/a_searchable.pdf'') None 1)"
    by (simp add: run_defs batch_env_def example_args_def opts_of_args_def)
  have rb: "snd (process_single_pdf batch_env ?fb (opts_of_args ?a)) =
      Inl (RuntimeError ''Failed to convert PDF to images: PDFPageCountError'')"
    by (simp add: run_defs batch_env_def example_args_def opts_of_args_def)
  have rc: "snd (process_single_pdf batch_env ?fc (opts_of_args ?a)) =
      Inr (Summary ''data/inbox/c.pdf'' (Some ''data/inbox/c_searchable.pdf'') None 1)"
    by (simp add: run_defs batch_env_def example_args_def opts_of_args_def)
  from batch_one_result_per_document [OF deps files dir]
  obtain t results where m: "main batch_env ?a = (t @ [Printed results], Return 0)"
    and len: "length results = length [?fa, ?fb, ?fc]"
    and each: "\<forall>k < length [?fa, ?fb, ?fc].
                results ! k =
                  (case snd (process_single_pdf batch_env ([?fa, ?fb, ?fc] ! k) (opts_of_args ?a)) of
                     Inr res \<Rightarrow> res
                   | Inl e \<Rightarrow> Failure (str_of_path ([?fa, ?fb, ?fc] ! k)) (str_of_exn e))"
    by blast
  from each [rule_format, of 0] each [rule_format, of 1] each [rule_format, of 2] ra rb rc
  have "results ! 0 = Summary ''data/inbox/a.pdf'' (Some ''data/inbox/a_searchable.pdf'') None 1"
    "results ! 1 = Failure ''data/inbox/b.PDF'' ''Failed to convert PDF to images: PDFPageCountError''"
    "results ! 2 = Summary ''data/inbox/c.pdf'' (Some ''data/inbox/c_searchable.pdf'') None 1"
    by (simp_all add: str_of_path_def)
  with m len show ?thesis by auto
qed

section \<open>The dependency check at startup\<close>

text \<open>
  C7, as amended. When Tesseract is not working, \<open>main\<close> logs one error and exits with
  status 1, before it lists the input or processes any document. (Poppler is not looked
  for at startup.)
\<close>

theorem missing_tesseract_stops_at_startup:
  assumes "tesseract_version env (if_truthy (arg_tesseract_cmd a)) = Inl e"
  shows "\<exists>m. main env a = ([Log ERROR (MsgDependency (RuntimeError m))], SysExit 1)"
  using assms by (simp add: main_def check_dependencies_def)

theorem missing_tesseract_stops_at_startup_witness:
  "\<exists>m. main no_tesseract_env (example_args scan) =
          ([Log ERROR (MsgDependency (RuntimeError m))], SysExit 1)"
proof -
  have "tesseract_version no_tesseract_env (if_truthy (arg_tesseract_cmd (example_args scan)))
          = Inl (LibraryError ''TesseractNotFoundError'')"
    by (simp add: no_tesseract_env_def example_env_def)
  then show ?thesis by (rule missing_tesseract_stops_at_startup)
qed

text \<open>
  The claim as stated fails for the rasterizer: without Poppler the run lists the input,
  starts on the document, records the failed conversion as that document's result and
  returns 0.
\<close>

theorem missing_poppler_counterexample:
  "convert_from_path no_poppler_env scan 300 None = Inl (LibraryError ''PDFInfoNotInstalledError'') \<and>
   main no_poppler_env (example_args scan) =
     ([Called_list_input_files scan, Called_process_single_pdf scan,
       Log INFO (MsgProcessing scan 300 ''eng''),
       Log ERROR (MsgFailedProcessing scan
         (RuntimeError ''Failed to convert PDF to images: PDFInfoNotInstalledError'')),
       Printed [Failure ''in/scan.pdf''
                  ''Failed to convert PDF to images: PDFInfoNotInstalledError'']],
      Return 0)"
  by (simp add: main_def check_dependencies_def list_input_files_def opts_of_args_def
      example_args_def no_poppler_env_def run_defs)

end
